theory Spec2Isabelle
  imports Main "HOL-Library.Word"
begin

section \<open>Status codes\<close>

text \<open>
  The numeric values of the engine's status enumeration come from the engine's public
  header, which is not among the sources; they are the values the case labels of
  \<open>ToErrorCodeString\<close> expand to. \<open>DNS_ESETSRVPENDING\<close> is defined by the bridge itself.
\<close>

definition ARES_SUCCESS :: int where "ARES_SUCCESS = 0"
definition ARES_ENODATA :: int where "ARES_ENODATA = 1"
definition ARES_EFORMERR :: int where "ARES_EFORMERR = 2"
definition ARES_ESERVFAIL :: int where "ARES_ESERVFAIL = 3"
definition ARES_ENOTFOUND :: int where "ARES_ENOTFOUND = 4"
definition ARES_ENOTIMP :: int where "ARES_ENOTIMP = 5"
definition ARES_EREFUSED :: int where "ARES_EREFUSED = 6"
definition ARES_EBADQUERY :: int where "ARES_EBADQUERY = 7"
definition ARES_EBADNAME :: int where "ARES_EBADNAME = 8"
definition ARES_EBADFAMILY :: int where "ARES_EBADFAMILY = 9"
definition ARES_EBADRESP :: int where "ARES_EBADRESP = 10"
definition ARES_ECONNREFUSED :: int where "ARES_ECONNREFUSED = 11"
definition ARES_ETIMEOUT :: int where "ARES_ETIMEOUT = 12"
definition ARES_EOF :: int where "ARES_EOF = 13"
definition ARES_EFILE :: int where "ARES_EFILE = 14"
definition ARES_ENOMEM :: int where "ARES_ENOMEM = 15"
definition ARES_EDESTRUCTION :: int where "ARES_EDESTRUCTION = 16"
definition ARES_EBADSTR :: int where "ARES_EBADSTR = 17"
definition ARES_EBADFLAGS :: int where "ARES_EBADFLAGS = 18"
definition ARES_ENONAME :: int where "ARES_ENONAME = 19"
definition ARES_EBADHINTS :: int where "ARES_EBADHINTS = 20"
definition ARES_ENOTINITIALIZED :: int where "ARES_ENOTINITIALIZED = 21"
definition ARES_ELOADIPHLPAPI :: int where "ARES_ELOADIPHLPAPI = 22"
definition ARES_EADDRGETNETWORKPARAMS :: int where "ARES_EADDRGETNETWORKPARAMS = 23"
definition ARES_ECANCELLED :: int where "ARES_ECANCELLED = 24"

definition DNS_ESETSRVPENDING :: int where "DNS_ESETSRVPENDING = - 1000"

text \<open>The \<open>switch\<close> of \<open>ToErrorCodeString\<close>: one case per engine error, a default string
  for everything else (which includes \<open>ARES_SUCCESS\<close>).\<close>

definition ToErrorCodeString :: "int \<Rightarrow> string" where
  "ToErrorCodeString status =
    (if status = ARES_EADDRGETNETWORKPARAMS then ''EADDRGETNETWORKPARAMS''
     else if status = ARES_EBADFAMILY then ''EBADFAMILY''
     else if status = ARES_EBADFLAGS then ''EBADFLAGS''
     else if status = ARES_EBADHINTS then ''EBADHINTS''
     else if status = ARES_EBADNAME then ''EBADNAME''
     else if status = ARES_EBADQUERY then ''EBADQUERY''
     else if status = ARES_EBADRESP then ''EBADRESP''
     else if status = ARES_EBADSTR then ''EBADSTR''
     else if status = ARES_ECANCELLED then ''ECANCELLED''
     else if status = ARES_ECONNREFUSED then ''ECONNREFUSED''
     else if status = ARES_EDESTRUCTION then ''EDESTRUCTION''
     else if status = ARES_EFILE then ''EFILE''
     else if status = ARES_EFORMERR then ''EFORMERR''
     else if status = ARES_ELOADIPHLPAPI then ''ELOADIPHLPAPI''
     else if status = ARES_ENODATA then ''ENODATA''
     else if status = ARES_ENOMEM then ''ENOMEM''
     else if status = ARES_ENONAME then ''ENONAME''
     else if status = ARES_ENOTFOUND then ''ENOTFOUND''
     else if status = ARES_ENOTIMP then ''ENOTIMP''
     else if status = ARES_ENOTINITIALIZED then ''ENOTINITIALIZED''
     else if status = ARES_EOF then ''EOF''
     else if status = ARES_EREFUSED then ''EREFUSED''
     else if status = ARES_ESERVFAIL then ''ESERVFAIL''
     else if status = ARES_ETIMEOUT then ''ETIMEOUT''
     else ''UNKNOWN_ARES_ERROR'')"

text \<open>The statuses the engine itself can report: success and the errors listed above.\<close>

definition engine_status_codes :: "int list" where
  "engine_status_codes =
    [ARES_SUCCESS, ARES_ENODATA, ARES_EFORMERR, ARES_ESERVFAIL, ARES_ENOTFOUND,
     ARES_ENOTIMP, ARES_EREFUSED, ARES_EBADQUERY, ARES_EBADNAME, ARES_EBADFAMILY,
     ARES_EBADRESP, ARES_ECONNREFUSED, ARES_ETIMEOUT, ARES_EOF, ARES_EFILE,
     ARES_ENOMEM, ARES_EDESTRUCTION, ARES_EBADSTR, ARES_EBADFLAGS, ARES_ENONAME,
     ARES_EBADHINTS, ARES_ENOTINITIALIZED, ARES_ELOADIPHLPAPI,
     ARES_EADDRGETNETWORKPARAMS, ARES_ECANCELLED]"

section \<open>Failures\<close>

text \<open>
  A failed \<open>CHECK\<close> aborts the process; a call through a null or destroyed engine handle, or
  a read of freed memory, is undefined behaviour. Both are outcomes of the model.
\<close>

datatype error = CheckFailed string | UndefinedBehaviour string

section \<open>Data model\<close>

text \<open>
  Member names are those of the sources without the trailing underscore
  (\<open>timer_handle\<close> for \<open>timer_handle_\<close>; \<open>cares_channel\<close>, the accessor's name, for
  \<open>channel_\<close>). The C \<open>int\<close> members are integers: the bridge compares and copies them.
  The only arithmetic on one is on the in-flight counter, where the wrap-around of the
  machine addition is written out.
\<close>

type_synonym ares_socket_t = int

definition UV_READABLE :: int where "UV_READABLE = 1"
definition UV_WRITABLE :: int where "UV_WRITABLE = 2"
definition AF_INET :: int where "AF_INET = 2"
definition AF_INET6 :: int where "AF_INET6 = 10"

text \<open>The state of a \<open>uv_timer_t\<close> that the bridge can observe or set.\<close>

record uv_timer_t =
  timer_active :: bool
  timer_timeout :: int
  timer_repeat :: int

text \<open>\<open>node_ares_task\<close>: the socket and the interest set its poll watcher is armed for.
  The back-pointer to the channel is implicit: the model has one channel.\<close>

record node_ares_task =
  sock :: ares_socket_t
  poll_events :: int

text \<open>One node of the engine's server list; \<open>next\<close> is the list structure. The address
  union is kept as its bytes in memory.\<close>

record ares_addr_port_node =
  family :: int
  addr_bytes :: "8 word list"
  udp_port :: int
  tcp_port :: int

text \<open>What the bridge relies on of an engine instance: its server list.\<close>

record ares_channel =
  servers :: "ares_addr_port_node list"

record ChannelWrap =
  timer_handle :: "uv_timer_t option"
  cares_channel :: "ares_channel option"
  query_last_ok :: bool
  is_servers_default :: bool
  library_inited :: bool
  timeout :: int
  active_query_count :: int
  task_list :: "node_ares_task list"

text \<open>\<open>hostent\<close> and the response a query keeps between capture and delivery.\<close>

record hostent =
  h_name :: "string option"
  h_aliases :: "string list"
  h_addrtype :: int
  h_length :: int
  h_addr_list :: "8 word list list"

record ResponseData =
  rd_status :: int
  rd_is_host :: bool
  rd_host :: "hostent option"
  rd_buf :: "8 word list option"

text \<open>The dynamic class of a lifecycle object: \<open>QueryAnyWrap\<close>, \<open>GetHostByAddrWrap\<close>, or
  one of the eleven single-record-type wraps, whose \<open>Parse\<close> methods all have the same shape.\<close>

datatype wrap_kind = QueryAnyWrap | QuerySingleWrap | GetHostByAddrWrap

record QueryWrap =
  wrap_class :: wrap_kind
  response_data :: "ResponseData option"
  callback_ptr :: "nat option"

text \<open>Values handed to the caller's completion hook.\<close>

datatype js_value =
    JsInt int
  | JsStr string
  | JsObj "(string \<times> js_value) list"
  | JsArr "js_value list"

text \<open>Handles whose closing has been requested from the loop and has not completed yet.\<close>

datatype uv_handle = PollHandle node_ares_task | TimerHandle uv_timer_t

text \<open>The calls into the engine that act on it, and the calls into the host (an exception
  thrown, the completion hook called), in program order. What the bridge does to the
  loop's timer and poll handles is kept in their state instead.\<close>

datatype event =
    AresLibraryInit
  | AresLibraryCleanup
  | AresInitOptions int
  | AresDestroy
  | AresProcessFd "ares_socket_t option" "ares_socket_t option"
  | AresSetServers "ares_addr_port_node list"
  | AresSend nat
  | ThrowError string
  | MakeCallback nat "js_value list"

text \<open>
  The bridge's world: the channel, the loop's queues (handles being closed, immediates), the
  heap of lifecycle objects and of callback-token cells (\<open>QueryWrap**\<close>: a cell holds the
  address of a lifecycle object or null), and the trace of outgoing calls.
\<close>

record world =
  channel :: ChannelWrap
  closing_handles :: "uv_handle list"
  immediates :: "nat list"
  wraps :: "nat \<rightharpoonup> QueryWrap"
  cells :: "nat \<rightharpoonup> nat option"
  next_addr :: nat
  trace :: "event list"

section \<open>The idle timer\<close>

definition uv_timer_init :: uv_timer_t where
  "uv_timer_init = \<lparr>timer_active = False, timer_timeout = 0, timer_repeat = 0\<rparr>"

definition uv_timer_start :: "uv_timer_t \<Rightarrow> int \<Rightarrow> int \<Rightarrow> uv_timer_t" where
  "uv_timer_start h t r = h\<lparr>timer_active := True, timer_timeout := t, timer_repeat := r\<rparr>"

text \<open>The three lines of \<open>StartTimer\<close> that compute the period from the configured
  timeout, before \<open>uv_timer_start\<close>.\<close>

definition armed_timeout :: "int \<Rightarrow> int" where
  "armed_timeout t0 =
    (let t = t0;
         t = (if t = 0 then 1 else t);
         t = (if t < 0 \<or> t > 1000 then 1000 else t)
     in t)"

definition StartTimer :: "ChannelWrap \<Rightarrow> ChannelWrap" where
  "StartTimer c =
    (case timer_handle c of
       None \<Rightarrow>
         c\<lparr>timer_handle :=
             Some (uv_timer_start uv_timer_init (armed_timeout (timeout c))
                                                (armed_timeout (timeout c)))\<rparr>
     | Some h \<Rightarrow>
         if timer_active h then c
         else c\<lparr>timer_handle :=
                 Some (uv_timer_start h (armed_timeout (timeout c))
                                        (armed_timeout (timeout c)))\<rparr>)"

definition CloseTimer :: "world \<Rightarrow> world" where
  "CloseTimer w =
    (case timer_handle (channel w) of
       None \<Rightarrow> w
     | Some h \<Rightarrow>
         w\<lparr>closing_handles := closing_handles w @ [TimerHandle h],
           channel := (channel w)\<lparr>timer_handle := None\<rparr>\<rparr>)"

text \<open>Whether the idle timer is running: the channel has a timer handle and it is active.\<close>

definition timer_running :: "ChannelWrap \<Rightarrow> bool" where
  "timer_running c = (case timer_handle c of None \<Rightarrow> False | Some h \<Rightarrow> timer_active h)"

section \<open>The task registry and the socket-state callback\<close>

text \<open>\<open>std::unordered_set\<close> with \<open>TaskHash\<close>/\<open>TaskEqual\<close>: elements are equal when their
  sockets are; \<open>insert\<close> does nothing when an equal element is present.\<close>

definition task_find :: "ares_socket_t \<Rightarrow> node_ares_task list \<Rightarrow> node_ares_task option" where
  "task_find s ts = find (\<lambda>t. sock t = s) ts"

definition task_insert :: "node_ares_task \<Rightarrow> node_ares_task list \<Rightarrow> node_ares_task list" where
  "task_insert t ts = (if task_find (sock t) ts = None then t # ts else ts)"

definition task_erase :: "node_ares_task \<Rightarrow> node_ares_task list \<Rightarrow> node_ares_task list" where
  "task_erase t ts = remove1 t ts"

text \<open>\<open>ares_task_create\<close>: \<open>poll_init_ok\<close> is whether \<open>uv_poll_init_socket\<close> succeeded.\<close>

definition ares_task_create :: "bool \<Rightarrow> ares_socket_t \<Rightarrow> node_ares_task option" where
  "ares_task_create poll_init_ok s =
    (if \<not> poll_init_ok then None else Some \<lparr>sock = s, poll_events = 0\<rparr>)"

definition uv_poll_start :: "ares_socket_t \<Rightarrow> int \<Rightarrow> node_ares_task list \<Rightarrow> node_ares_task list" where
  "uv_poll_start s ev ts = map (\<lambda>t. if sock t = s then t\<lparr>poll_events := ev\<rparr> else t) ts"

text \<open>The interest set passed to \<open>uv_poll_start\<close>; the two flags are distinct bits, so
  their bitwise or is their sum.\<close>

definition poll_interest :: "int \<Rightarrow> int \<Rightarrow> int" where
  "poll_interest rd wr =
    (if rd \<noteq> 0 then UV_READABLE else 0) + (if wr \<noteq> 0 then UV_WRITABLE else 0)"

definition ares_sockstate_cb :: "bool \<Rightarrow> ares_socket_t \<Rightarrow> int \<Rightarrow> int \<Rightarrow> world \<Rightarrow> error + world" where
  "ares_sockstate_cb poll_init_ok s rd wr w =
    (let task = task_find s (task_list (channel w)) in
     if rd \<noteq> 0 \<or> wr \<noteq> 0 then
       (case task of
          None \<Rightarrow>
            (let c1 = StartTimer (channel w) in
             case ares_task_create poll_init_ok s of
               None \<Rightarrow> Inr (w\<lparr>channel := c1\<rparr>)
             | Some t \<Rightarrow>
                 Inr (w\<lparr>channel :=
                        c1\<lparr>task_list :=
                             uv_poll_start s (poll_interest rd wr)
                               (task_insert t (task_list c1))\<rparr>\<rparr>))
        | Some t \<Rightarrow>
            Inr (w\<lparr>channel :=
                   (channel w)\<lparr>task_list :=
                        uv_poll_start s (poll_interest rd wr) (task_list (channel w))\<rparr>\<rparr>))
     else
       (case task of
          None \<Rightarrow>
            Inl (CheckFailed ''When an ares socket is closed we should have a handle for it'')
        | Some t \<Rightarrow>
            (let w1 = w\<lparr>channel := (channel w)\<lparr>task_list := task_erase t (task_list (channel w))\<rparr>,
                         closing_handles := closing_handles w @ [PollHandle t]\<rparr>
             in if task_list (channel w1) = [] then Inr (CloseTimer w1) else Inr w1)))"

text \<open>\<open>ares_poll_close_cb\<close>, run by the loop when the close of a poll handle completes:
  the task is deleted. The timer's close callback deletes the timer handle.\<close>

definition run_close_cb :: "world \<Rightarrow> world" where
  "run_close_cb w = w\<lparr>closing_handles := tl (closing_handles w)\<rparr>"

text \<open>\<open>AresTimeout\<close>, run by the loop when a timer of the channel fires: its first \<open>CHECK\<close>
  fails when the channel has no timer handle (the handle that fired is not the channel's).\<close>

definition AresTimeout :: "world \<Rightarrow> error + world" where
  "AresTimeout w =
    (if timer_handle (channel w) = None
     then Inl (CheckFailed ''CHECK_EQ(channel->timer_handle(), handle)'')
     else if task_list (channel w) = []
     then Inl (CheckFailed ''CHECK_EQ(false, task_list()->empty())'')
     else Inr (w\<lparr>trace := trace w @ [AresProcessFd None None]\<rparr>))"

text \<open>A run of the socket-state callback over a sequence of notifications
  \<open>(poll_init_ok, socket, read, write)\<close>; it stops at the first abort.\<close>

fun sockstate_run :: "(bool \<times> ares_socket_t \<times> int \<times> int) list \<Rightarrow> world \<Rightarrow> error + world" where
  "sockstate_run [] w = Inr w"
| "sockstate_run ((ok, s, rd, wr) # ns) w =
    (case ares_sockstate_cb ok s rd wr w of
       Inl e \<Rightarrow> Inl e
     | Inr w' \<Rightarrow> sockstate_run ns w')"

section \<open>Channel setup and fallback-server detection\<close>

text \<open>
  The engine is an external collaborator. A call into it appears in the trace; what it
  returns is a parameter of the model: \<open>lib_r\<close> is the status of \<open>ares_library_init\<close>,
  \<open>init\<close> the status of \<open>ares_init_options\<close> together with the instance it creates.
  Callbacks the engine makes while it is being called are steps of their own.
\<close>

definition Setup :: "int \<Rightarrow> int \<times> ares_channel \<Rightarrow> world \<Rightarrow> world" where
  "Setup lib_r init w =
    (if \<not> library_inited (channel w) \<and> lib_r \<noteq> ARES_SUCCESS then
       w\<lparr>trace := trace w @ [AresLibraryInit, ThrowError (ToErrorCodeString lib_r)]\<rparr>
     else
       (let w1 = (if \<not> library_inited (channel w)
                  then w\<lparr>trace := trace w @ [AresLibraryInit]\<rparr> else w);
            w2 = w1\<lparr>trace := trace w1 @ [AresInitOptions (timeout (channel w1))]\<rparr>
        in if fst init \<noteq> ARES_SUCCESS then
             w2\<lparr>trace := trace w2 @ [AresLibraryCleanup, ThrowError (ToErrorCodeString (fst init))]\<rparr>
           else
             w2\<lparr>channel := (channel w2)\<lparr>cares_channel := Some (snd init),
                                          library_inited := True\<rparr>\<rparr>))"

text \<open>The constructor: the member initialisers, then \<open>Setup\<close>.\<close>

definition ChannelWrap_init :: "int \<Rightarrow> ChannelWrap" where
  "ChannelWrap_init tmo =
    \<lparr>timer_handle = None, cares_channel = None, query_last_ok = True,
     is_servers_default = True, library_inited = False, timeout = tmo,
     active_query_count = 0, task_list = []\<rparr>"

definition world_init :: "int \<Rightarrow> world" where
  "world_init tmo =
    \<lparr>channel = ChannelWrap_init tmo,
     closing_handles = [], immediates = [], wraps = Map.empty, cells = Map.empty,
     next_addr = 0, trace = []\<rparr>"

definition ChannelWrap_new :: "int \<Rightarrow> int \<Rightarrow> int \<times> ares_channel \<Rightarrow> world" where
  "ChannelWrap_new tmo lib_r init = Setup lib_r init (world_init tmo)"

text \<open>\<open>htonl(INADDR_LOOPBACK)\<close> compared with \<open>addr.addr4.s_addr\<close>: the first four bytes of
  the address union are 127, 0, 0, 1.\<close>

definition is_loopback4 :: "8 word list \<Rightarrow> bool" where
  "is_loopback4 bs = (take 4 bs = [127, 0, 0, 1])"

text \<open>
  \<open>EnsureServers\<close>. The list is what \<open>ares_get_servers_ports\<close> writes; its status is not
  looked at, and when it fails the pointer stays null, which is the empty list here.
  After \<open>ares_destroy\<close> the member points to a destroyed instance until \<open>Setup\<close> stores a
  new one: the channel has no usable instance, \<open>None\<close>.
\<close>

definition EnsureServers :: "int \<Rightarrow> int \<times> ares_channel \<Rightarrow> world \<Rightarrow> error + world" where
  "EnsureServers lib_r init w =
    (if query_last_ok (channel w) \<or> \<not> is_servers_default (channel w) then Inr w
     else
       (case cares_channel (channel w) of
          None \<Rightarrow> Inl (UndefinedBehaviour ''ares_get_servers_ports without an engine instance'')
        | Some e \<Rightarrow>
            (case servers e of
               [] \<Rightarrow> Inr w
             | s # rest \<Rightarrow>
                 if rest \<noteq> [] then
                   Inr (w\<lparr>channel := (channel w)\<lparr>is_servers_default := False\<rparr>\<rparr>)
                 else if family s \<noteq> AF_INET \<or> \<not> is_loopback4 (addr_bytes s) \<or>
                         tcp_port s \<noteq> 0 \<or> udp_port s \<noteq> 0 then
                   Inr (w\<lparr>channel := (channel w)\<lparr>is_servers_default := False\<rparr>\<rparr>)
                 else
                   Inr (Setup lib_r init
                         (CloseTimer
                           (w\<lparr>trace := trace w @ [AresDestroy],
                              channel := (channel w)\<lparr>cares_channel := None\<rparr>\<rparr>))))))"

section \<open>set-servers\<close>

text \<open>
  The loop of \<open>SetServers\<close> over the entries \<open>(family, ip, port)\<close> of its argument.
  \<open>pton\<close> is \<open>uv_inet_pton\<close>: \<open>None\<close> when it returns an error, the address bytes otherwise.
  The result is an abort, \<open>Inr None\<close> when an address did not parse (the loop breaks with
  \<open>err\<close> set), or the linked nodes.
\<close>

fun SetServers_loop ::
  "(int \<Rightarrow> string \<Rightarrow> 8 word list option) \<Rightarrow> (int \<times> string \<times> int) list
    \<Rightarrow> error + ares_addr_port_node list option" where
  "SetServers_loop pton [] = Inr (Some [])"
| "SetServers_loop pton ((fam, ip, port) # rest) =
    (if fam = 0 then Inl (CheckFailed ''CHECK(elm[0]->Int32Value())'')
     else if port = 0 then Inl (CheckFailed ''CHECK(elm[2]->Int32Value())'')
     else if fam \<noteq> 4 \<and> fam \<noteq> 6 then Inl (CheckFailed ''Bad address family.'')
     else
       (case pton (if fam = 4 then AF_INET else AF_INET6) ip of
          None \<Rightarrow> Inr None
        | Some a \<Rightarrow>
            (case SetServers_loop pton rest of
               Inl e \<Rightarrow> Inl e
             | Inr None \<Rightarrow> Inr None
             | Inr (Some ns) \<Rightarrow>
                 Inr (Some (\<lparr>family = (if fam = 4 then AF_INET else AF_INET6),
                              addr_bytes = a, udp_port = port, tcp_port = port\<rparr> # ns)))))"

text \<open>\<open>ares_set_servers\<close> and \<open>ares_set_servers_ports\<close>: \<open>rv\<close> is the status the engine returns;
  the engine replaces its list when it returns success and keeps it otherwise.\<close>

definition engine_set_servers :: "int \<Rightarrow> ares_addr_port_node list \<Rightarrow> world \<Rightarrow> error + world" where
  "engine_set_servers rv ns w =
    (case cares_channel (channel w) of
       None \<Rightarrow> Inl (UndefinedBehaviour ''ares_set_servers without an engine instance'')
     | Some e \<Rightarrow>
         Inr (w\<lparr>trace := trace w @ [AresSetServers ns],
                channel := (channel w)\<lparr>cares_channel :=
                   Some (if rv = ARES_SUCCESS then e\<lparr>servers := ns\<rparr> else e)\<rparr>\<rparr>))"

definition SetServers ::
  "(int \<Rightarrow> string \<Rightarrow> 8 word list option) \<Rightarrow> int \<Rightarrow> (int \<times> string \<times> int) list \<Rightarrow> world
    \<Rightarrow> error + (int \<times> world)" where
  "SetServers pton rv arr w =
    (if active_query_count (channel w) \<noteq> 0 then Inr (DNS_ESETSRVPENDING, w)
     else if length arr = 0 then
       (case engine_set_servers rv [] w of Inl e \<Rightarrow> Inl e | Inr w1 \<Rightarrow> Inr (rv, w1))
     else
       (case SetServers_loop pton arr of
          Inl e \<Rightarrow> Inl e
        | Inr None \<Rightarrow> Inr (ARES_EBADSTR, w)
        | Inr (Some ns) \<Rightarrow>
            (case engine_set_servers rv ns w of
               Inl e \<Rightarrow> Inl e
             | Inr w1 \<Rightarrow>
                 if rv = ARES_SUCCESS
                 then Inr (rv, w1\<lparr>channel := (channel w1)\<lparr>is_servers_default := False\<rparr>\<rparr>)
                 else Inr (rv, w1))))"

section \<open>The query lifecycle\<close>

text \<open>\<open>active_query_count_\<close> is a C \<open>int\<close>: \<open>int32\<close> brings a sum back into the range of
  a 32-bit two's complement integer, as the addition on the machine does. One more than
  \<open>INT_MAX\<close> is \<open>INT_MIN\<close>, on which the \<open>CHECK\<close> aborts.\<close>

definition int32 :: "int \<Rightarrow> int" where
  "int32 x = (x + 2147483648) mod 4294967296 - 2147483648"

definition CHECK_GE_count :: error where
  "CHECK_GE_count = CheckFailed ''CHECK_GE(active_query_count_, 0)''"

definition ModifyActivityQueryCount :: "int \<Rightarrow> world \<Rightarrow> error + world" where
  "ModifyActivityQueryCount count w =
    (let n = int32 (active_query_count (channel w) + count) in
     if n < 0 then Inl CHECK_GE_count
     else Inr (w\<lparr>channel := (channel w)\<lparr>active_query_count := n\<rparr>\<rparr>))"

definition set_query_last_ok :: "bool \<Rightarrow> world \<Rightarrow> world" where
  "set_query_last_ok ok w = w\<lparr>channel := (channel w)\<lparr>query_last_ok := ok\<rparr>\<rparr>"

text \<open>The destructor of \<open>QueryWrap\<close>; the object at \<open>wid\<close> is freed. (Its \<open>CHECK\<close> on the
  persistent handle concerns the host object, which is not modelled.)\<close>

definition QueryWrap_dtor :: "nat \<Rightarrow> world \<Rightarrow> error + world" where
  "QueryWrap_dtor wid w =
    (case wraps w wid of
       None \<Rightarrow> Inl (UndefinedBehaviour ''destructor of a freed lifecycle object'')
     | Some q \<Rightarrow>
         (case callback_ptr q of
            None \<Rightarrow> Inr (w\<lparr>wraps := (wraps w)(wid := None)\<rparr>)
          | Some p \<Rightarrow>
              (case cells w p of
                 None \<Rightarrow> Inl (UndefinedBehaviour ''write to a freed token cell'')
               | Some _ \<Rightarrow>
                   Inr (w\<lparr>cells := (cells w)(p \<mapsto> None),
                          wraps := (wraps w)(wid := None)\<rparr>))))"

definition MakeCallbackPointer :: "nat \<Rightarrow> world \<Rightarrow> error + (nat \<times> world)" where
  "MakeCallbackPointer wid w =
    (case wraps w wid of
       None \<Rightarrow> Inl (UndefinedBehaviour ''use of a freed lifecycle object'')
     | Some q \<Rightarrow>
         if callback_ptr q \<noteq> None then Inl (CheckFailed ''CHECK_NULL(callback_ptr_)'')
         else
           (let p = next_addr w in
            Inr (p, w\<lparr>cells := (cells w)(p \<mapsto> Some wid),
                      wraps := (wraps w)(wid \<mapsto> q\<lparr>callback_ptr := Some p\<rparr>),
                      next_addr := Suc p\<rparr>)))"

text \<open>\<open>FromCallbackPointer\<close>: the \<open>unique_ptr\<close> frees the cell on every return path.\<close>

definition FromCallbackPointer :: "nat \<Rightarrow> world \<Rightarrow> error + (nat option \<times> world)" where
  "FromCallbackPointer arg w =
    (case cells w arg of
       None \<Rightarrow> Inl (UndefinedBehaviour ''read of a freed token cell'')
     | Some None \<Rightarrow> Inr (None, w\<lparr>cells := (cells w)(arg := None)\<rparr>)
     | Some (Some wid) \<Rightarrow>
         (case wraps w wid of
            None \<Rightarrow> Inl (UndefinedBehaviour ''write to a freed lifecycle object'')
          | Some q \<Rightarrow>
              Inr (Some wid,
                   w\<lparr>wraps := (wraps w)(wid \<mapsto> q\<lparr>callback_ptr := None\<rparr>),
                     cells := (cells w)(arg := None)\<rparr>)))"

definition QueueResponseCallback :: "nat \<Rightarrow> int \<Rightarrow> world \<Rightarrow> error + world" where
  "QueueResponseCallback wid status w =
    (let w1 = w\<lparr>immediates := immediates w @ [wid]\<rparr>;
         w2 = set_query_last_ok (status \<noteq> ARES_ECONNREFUSED) w1
     in ModifyActivityQueryCount (- 1) w2)"

definition set_response_data :: "nat \<Rightarrow> ResponseData \<Rightarrow> world \<Rightarrow> error + world" where
  "set_response_data wid d w =
    (case wraps w wid of
       None \<Rightarrow> Inl (UndefinedBehaviour ''write to a freed lifecycle object'')
     | Some q \<Rightarrow> Inr (w\<lparr>wraps := (wraps w)(wid \<mapsto> q\<lparr>response_data := Some d\<rparr>)\<rparr>))"

text \<open>The completion callback for a raw answer: \<open>answer\<close> is the engine's buffer of
  \<open>answer_len\<close> bytes, copied when the status is success.\<close>

definition Callback_buf :: "nat \<Rightarrow> int \<Rightarrow> 8 word list \<Rightarrow> world \<Rightarrow> error + world" where
  "Callback_buf arg status answer w =
    (case FromCallbackPointer arg w of
       Inl e \<Rightarrow> Inl e
     | Inr (None, w1) \<Rightarrow> Inr w1
     | Inr (Some wid, w1) \<Rightarrow>
         (let buf_copy = (if status = ARES_SUCCESS then Some answer else None) in
          case set_response_data wid
                 \<lparr>rd_status = status, rd_is_host = False, rd_host = None, rd_buf = buf_copy\<rparr> w1 of
            Inl e \<Rightarrow> Inl e
          | Inr w2 \<Rightarrow> QueueResponseCallback wid status w2))"

text \<open>\<open>cares_wrap_hostent_cpy\<close>: every address is copied with \<open>h_length\<close> bytes.\<close>

definition cares_wrap_hostent_cpy :: "hostent \<Rightarrow> error + hostent" where
  "cares_wrap_hostent_cpy src =
    (case h_name src of
       None \<Rightarrow> Inl (UndefinedBehaviour ''strlen of a null h_name'')
     | Some n \<Rightarrow>
         Inr \<lparr>h_name = Some n, h_aliases = h_aliases src, h_addrtype = h_addrtype src,
              h_length = h_length src,
              h_addr_list = map (take (nat (h_length src))) (h_addr_list src)\<rparr>)"

definition Callback_host :: "nat \<Rightarrow> int \<Rightarrow> hostent \<Rightarrow> world \<Rightarrow> error + world" where
  "Callback_host arg status host w =
    (case FromCallbackPointer arg w of
       Inl e \<Rightarrow> Inl e
     | Inr (None, w1) \<Rightarrow> Inr w1
     | Inr (Some wid, w1) \<Rightarrow>
         (case (if status = ARES_SUCCESS
                then (case cares_wrap_hostent_cpy host of Inl e \<Rightarrow> Inl e | Inr h \<Rightarrow> Inr (Some h))
                else Inr None) of
            Inl e \<Rightarrow> Inl e
          | Inr host_copy \<Rightarrow>
              (case set_response_data wid
                      \<lparr>rd_status = status, rd_is_host = True, rd_host = host_copy, rd_buf = None\<rparr> w1 of
                 Inl e \<Rightarrow> Inl e
               | Inr w2 \<Rightarrow> QueueResponseCallback wid status w2)))"

section \<open>Delivery\<close>

definition ParseError :: "nat \<Rightarrow> int \<Rightarrow> world \<Rightarrow> error + world" where
  "ParseError wid status w =
    (if status = ARES_SUCCESS then Inl (CheckFailed ''CHECK_NE(status, ARES_SUCCESS)'')
     else Inr (w\<lparr>trace := trace w @ [MakeCallback wid [JsStr (ToErrorCodeString status)]]\<rparr>))"

definition CallOnComplete :: "nat \<Rightarrow> js_value \<Rightarrow> js_value option \<Rightarrow> world \<Rightarrow> error + world" where
  "CallOnComplete wid answer extra w =
    Inr (w\<lparr>trace := trace w @
          [MakeCallback wid ([JsInt 0, answer] @ (case extra of None \<Rightarrow> [] | Some x \<Rightarrow> [x]))]\<rparr>)"

section \<open>Decoding\<close>

definition ns_t_a :: int where "ns_t_a = 1"
definition ns_t_ns :: int where "ns_t_ns = 2"
definition ns_t_cname :: int where "ns_t_cname = 5"
definition ns_t_ptr :: int where "ns_t_ptr = 12"
definition ns_t_aaaa :: int where "ns_t_aaaa = 28"
definition ns_t_cname_or_a :: int where "ns_t_cname_or_a = - 1"

text \<open>
  The engine's reply parsers and the conversion of their records into host values are
  external; they are parameters of the model, one per pass of the compound query:
  \<^item> \<open>ares_parse_hostent\<close>, by record type, for \<open>ares_parse_a_reply\<close>, \<open>ares_parse_aaaa_reply\<close>,
    \<open>ares_parse_ns_reply\<close> and \<open>ares_parse_ptr_reply\<close>: the status, the \<open>hostent\<close>, the value
    left in \<open>*naddrttls\<close> and the \<open>ttl\<close> of each entry of \<open>addrttls\<close>;
  \<^item> \<open>uv_inet_ntop\<close>;
  \<^item> for MX, TXT, SRV, NAPTR and CAA, by the \<open>need_type\<close> flag and the buffer: the
    engine's status and the records as host values;
  \<^item> for SOA: the status and the record, if one was found;
  \<^item> \<open>parse_single\<close>, for the wraps of one record type: the status and the arguments
    handed to \<open>CallOnComplete\<close>.
\<close>

record decoders =
  ares_parse_hostent :: "int \<Rightarrow> 8 word list \<Rightarrow> int \<times> hostent \<times> int \<times> (nat \<Rightarrow> int)"
  uv_inet_ntop :: "int \<Rightarrow> 8 word list \<Rightarrow> string"
  parse_mx :: "bool \<Rightarrow> 8 word list \<Rightarrow> int \<times> js_value list"
  parse_txt :: "bool \<Rightarrow> 8 word list \<Rightarrow> int \<times> js_value list"
  parse_srv :: "bool \<Rightarrow> 8 word list \<Rightarrow> int \<times> js_value list"
  parse_naptr :: "bool \<Rightarrow> 8 word list \<Rightarrow> int \<times> js_value list"
  parse_caa :: "bool \<Rightarrow> 8 word list \<Rightarrow> int \<times> js_value list"
  parse_soa :: "8 word list \<Rightarrow> int \<times> js_value option"
  parse_single :: "8 word list \<Rightarrow> int \<times> js_value \<times> js_value option"

text \<open>\<open>ParseGeneralReply\<close>: returns the status, the type it leaves in \<open>*type\<close>, the array
  \<open>ret\<close>, \<open>*naddrttls\<close> and the ttls.\<close>

definition ParseGeneralReply ::
  "decoders \<Rightarrow> 8 word list \<Rightarrow> int \<Rightarrow> js_value list
    \<Rightarrow> error + (int \<times> int \<times> js_value list \<times> int \<times> (nat \<Rightarrow> int))" where
  "ParseGeneralReply D buf type ret =
    (if type \<noteq> ns_t_a \<and> type \<noteq> ns_t_cname \<and> type \<noteq> ns_t_cname_or_a \<and>
        type \<noteq> ns_t_aaaa \<and> type \<noteq> ns_t_ns \<and> type \<noteq> ns_t_ptr
     then Inl (CheckFailed ''Bad NS type'')
     else
       (case ares_parse_hostent D type buf of
          (status, host, naddrttls, addrttls) \<Rightarrow>
            if status \<noteq> ARES_SUCCESS then Inr (status, type, ret, naddrttls, addrttls)
            else if (type = ns_t_cname_or_a \<and> h_name host \<noteq> None \<and> h_aliases host \<noteq> []) \<or>
                    type = ns_t_cname then
              (case h_name host of
                 None \<Rightarrow> Inl (UndefinedBehaviour ''string from a null h_name'')
               | Some n \<Rightarrow> Inr (ARES_SUCCESS, ns_t_cname, ret @ [JsStr n], naddrttls, addrttls))
            else
              (let type1 = (if type = ns_t_cname_or_a then ns_t_a else type) in
               if type1 = ns_t_ns \<or> type1 = ns_t_ptr then
                 Inr (ARES_SUCCESS, type1, ret @ map JsStr (h_aliases host), naddrttls, addrttls)
               else
                 Inr (ARES_SUCCESS, type1,
                      ret @ map (\<lambda>a. JsStr (uv_inet_ntop D (h_addrtype host) a)) (h_addr_list host),
                      naddrttls, addrttls))))"

text \<open>\<open>ParseMxReply\<close>, \<open>ParseTxtReply\<close>, \<open>ParseSrvReply\<close>, \<open>ParseNaptrReply\<close> and
  \<open>ParseCaaReply\<close> return the engine's status before touching \<open>ret\<close> when it is not success,
  and append the records otherwise.\<close>

definition ParseRecordsReply :: "int \<times> js_value list \<Rightarrow> js_value list \<Rightarrow> int \<times> js_value list" where
  "ParseRecordsReply parsed ret =
    (if fst parsed \<noteq> ARES_SUCCESS then (fst parsed, ret) else (ARES_SUCCESS, ret @ snd parsed))"

text \<open>The loops of \<open>QueryAnyWrap::Parse\<close> that replace the entries from index \<open>n\<close> on by
  objects: \<open>f j v\<close> is the object for the \<open>j\<close>-th of them, whose old value is \<open>v\<close>. The
  property names and type tags are the strings behind the environment's
  \<open>address_string()\<close>, \<open>ttl_string()\<close>, \<open>value_string()\<close>, \<open>type_string()\<close> and
  \<open>dns_a_string()\<close> to \<open>dns_ptr_string()\<close>; a ttl goes through \<open>NewFromUnsigned\<close>.\<close>

definition wrap_from :: "nat \<Rightarrow> (nat \<Rightarrow> js_value \<Rightarrow> js_value) \<Rightarrow> js_value list \<Rightarrow> js_value list" where
  "wrap_from n f ret = take n ret @ map (\<lambda>(j, v). f j v) (zip [0..<length ret - n] (drop n ret))"

definition addr_obj :: "string \<Rightarrow> (nat \<Rightarrow> int) \<Rightarrow> nat \<Rightarrow> js_value \<Rightarrow> js_value" where
  "addr_obj ty ttls j v =
    JsObj [(''address'', v), (''ttl'', JsInt (ttls j mod 2 ^ 32)), (''type'', JsStr ty)]"

definition value_obj :: "string \<Rightarrow> nat \<Rightarrow> js_value \<Rightarrow> js_value" where
  "value_obj ty j v = JsObj [(''value'', v), (''type'', JsStr ty)]"

definition bad_status :: "int \<Rightarrow> bool" where
  "bad_status status = (status \<noteq> ARES_SUCCESS \<and> status \<noteq> ARES_ENODATA)"

text \<open>\<open>QueryAnyWrap::Parse\<close>, pass by pass in the order of the source.\<close>

definition QueryAnyWrap_Parse :: "decoders \<Rightarrow> nat \<Rightarrow> 8 word list \<Rightarrow> world \<Rightarrow> error + world" where
  "QueryAnyWrap_Parse D wid buf w =
    (case ParseGeneralReply D buf ns_t_cname_or_a [] of
       Inl e \<Rightarrow> Inl e
     | Inr (status, type, ret, naddrttls, addrttls) \<Rightarrow>
     let a_count = length ret in
     if bad_status status then ParseError wid status w
     else if type = ns_t_a \<and> naddrttls mod 2 ^ 32 \<noteq> int a_count
     then Inl (CheckFailed ''CHECK_EQ(naddrttls, a_count)'')
     else
     let ret = (if type = ns_t_a then wrap_from 0 (addr_obj ''A'' addrttls) ret
                else wrap_from 0 (value_obj ''CNAME'') ret) in
     (case ParseGeneralReply D buf ns_t_aaaa ret of
       Inl e \<Rightarrow> Inl e
     | Inr (status, type, ret, naddr6ttls, addr6ttls) \<Rightarrow>
     let aaaa_count = length ret - a_count in
     if bad_status status then ParseError wid status w
     else if int aaaa_count \<noteq> naddr6ttls mod 2 ^ 32
     then Inl (CheckFailed ''CHECK_EQ(aaaa_count, naddr6ttls)'')
     else
     let ret = wrap_from a_count (addr_obj ''AAAA'' addr6ttls) ret in
     (case ParseRecordsReply (parse_mx D True buf) ret of (status, ret) \<Rightarrow>
     if bad_status status then ParseError wid status w
     else
     let old_count = length ret in
     (case ParseGeneralReply D buf ns_t_ns ret of
       Inl e \<Rightarrow> Inl e
     | Inr (status, type, ret, _, _) \<Rightarrow>
     if bad_status status then ParseError wid status w
     else
     let ret = wrap_from old_count (value_obj ''NS'') ret in
     (case ParseRecordsReply (parse_txt D True buf) ret of (status, ret) \<Rightarrow>
     if bad_status status then ParseError wid status w
     else
     (case ParseRecordsReply (parse_srv D True buf) ret of (status, ret) \<Rightarrow>
     if bad_status status then Inr w
     else
     let old_count = length ret in
     (case ParseGeneralReply D buf ns_t_ptr ret of
       Inl e \<Rightarrow> Inl e
     | Inr (status, type, ret, _, _) \<Rightarrow>
     let ret = wrap_from old_count (value_obj ''PTR'') ret in
     (case ParseRecordsReply (parse_naptr D True buf) ret of (status, ret) \<Rightarrow>
     if bad_status status then ParseError wid status w
     else
     (case parse_soa D buf of (status, soa_record) \<Rightarrow>
     if bad_status status then ParseError wid status w
     else
     let ret = (case soa_record of None \<Rightarrow> ret | Some r \<Rightarrow> ret @ [r]) in
     (case ParseRecordsReply (parse_caa D True buf) ret of (status, ret) \<Rightarrow>
     if bad_status status then ParseError wid status w
     else CallOnComplete wid (JsArr ret) None w))))))))))"

text \<open>\<open>Parse\<close> of the wraps of one record type: one decode, then the error or the answer.\<close>

definition QuerySingleWrap_Parse :: "decoders \<Rightarrow> nat \<Rightarrow> 8 word list \<Rightarrow> world \<Rightarrow> error + world" where
  "QuerySingleWrap_Parse D wid buf w =
    (case parse_single D buf of
       (status, answer, extra) \<Rightarrow>
         if status \<noteq> ARES_SUCCESS then ParseError wid status w
         else CallOnComplete wid answer extra w)"

definition HostentToNames :: "hostent \<Rightarrow> js_value" where
  "HostentToNames host = JsArr (map JsStr (h_aliases host))"

definition GetHostByAddrWrap_Parse :: "nat \<Rightarrow> hostent \<Rightarrow> world \<Rightarrow> error + world" where
  "GetHostByAddrWrap_Parse wid host w = CallOnComplete wid (HostentToNames host) None w"

text \<open>\<open>AfterResponse\<close>, with the virtual \<open>Parse\<close> resolved by the class of the object; the
  base-class methods are \<open>UNREACHABLE\<close>.\<close>

definition AfterResponse :: "decoders \<Rightarrow> nat \<Rightarrow> world \<Rightarrow> error + world" where
  "AfterResponse D wid w =
    (case wraps w wid of
       None \<Rightarrow> Inl (UndefinedBehaviour ''use of a freed lifecycle object'')
     | Some q \<Rightarrow>
         (case response_data q of
            None \<Rightarrow> Inl (CheckFailed ''CHECK(response_data_)'')
          | Some d \<Rightarrow>
              if rd_status d \<noteq> ARES_SUCCESS then ParseError wid (rd_status d) w
              else if \<not> rd_is_host d then
                (case rd_buf d of
                   None \<Rightarrow> Inl (UndefinedBehaviour ''null answer buffer'')
                 | Some buf \<Rightarrow>
                     (case wrap_class q of
                        QueryAnyWrap \<Rightarrow> QueryAnyWrap_Parse D wid buf w
                      | QuerySingleWrap \<Rightarrow> QuerySingleWrap_Parse D wid buf w
                      | GetHostByAddrWrap \<Rightarrow> Inl (CheckFailed ''UNREACHABLE'')))
              else
                (case rd_host d of
                   None \<Rightarrow> Inl (UndefinedBehaviour ''null hostent'')
                 | Some host \<Rightarrow>
                     (case wrap_class q of
                        GetHostByAddrWrap \<Rightarrow> GetHostByAddrWrap_Parse wid host w
                      | _ \<Rightarrow> Inl (CheckFailed ''UNREACHABLE'')))))"

text \<open>The immediate queued by \<open>QueueResponseCallback\<close>, when the loop runs it:
  \<open>AfterResponse\<close>, then \<open>Detach\<close>, after which the last strong reference goes out of scope
  and the object is destroyed.\<close>

definition run_immediate :: "decoders \<Rightarrow> world \<Rightarrow> error + world" where
  "run_immediate D w =
    (case immediates w of
       [] \<Rightarrow> Inr w
     | wid # rest \<Rightarrow>
         (case AfterResponse D wid (w\<lparr>immediates := rest\<rparr>) of
            Inl e \<Rightarrow> Inl e
          | Inr w1 \<Rightarrow> QueryWrap_dtor wid w1))"

section \<open>Dispatch\<close>

definition UV_EINVAL :: int where "UV_EINVAL = - 22"

text \<open>What dispatch needs from outside: the statuses for \<open>Setup\<close> and \<open>uv_inet_pton\<close>.\<close>

record host_env =
  env_library_init :: int
  env_init_options :: "int \<times> ares_channel"
  env_inet_pton :: "int \<Rightarrow> string \<Rightarrow> 8 word list option"

text \<open>Handing a token to the engine (\<open>ares_query\<close>, \<open>ares_gethostbyaddr\<close>).\<close>

definition engine_send :: "nat \<Rightarrow> world \<Rightarrow> error + world" where
  "engine_send wid w =
    (case MakeCallbackPointer wid w of
       Inl e \<Rightarrow> Inl e
     | Inr (p, w1) \<Rightarrow>
         (case cares_channel (channel w1) of
            None \<Rightarrow> Inl (UndefinedBehaviour ''query without an engine instance'')
          | Some _ \<Rightarrow> Inr (w1\<lparr>trace := trace w1 @ [AresSend p]\<rparr>)))"

text \<open>\<open>Send\<close>: \<open>AresQuery\<close> for the query wraps, the address check for \<open>GetHostByAddrWrap\<close>.\<close>

definition Send :: "host_env \<Rightarrow> wrap_kind \<Rightarrow> nat \<Rightarrow> string \<Rightarrow> world \<Rightarrow> error + (int \<times> world)" where
  "Send E k wid name w =
    (if k = GetHostByAddrWrap then
       (if env_inet_pton E AF_INET name = None \<and> env_inet_pton E AF_INET6 name = None
        then Inr (UV_EINVAL, w)
        else (case engine_send wid w of Inl e \<Rightarrow> Inl e | Inr w1 \<Rightarrow> Inr (0, w1)))
     else
       (case EnsureServers (env_library_init E) (env_init_options E) w of
          Inl e \<Rightarrow> Inl e
        | Inr w1 \<Rightarrow>
            (case engine_send wid w1 of Inl e \<Rightarrow> Inl e | Inr w2 \<Rightarrow> Inr (0, w2))))"

text \<open>\<open>Query<Wrap>\<close>: the new object is owned by a \<open>unique_ptr\<close>, released when \<open>Send\<close>
  accepted the query and destroyed at the end of the function otherwise.\<close>

definition Query :: "host_env \<Rightarrow> wrap_kind \<Rightarrow> string \<Rightarrow> world \<Rightarrow> error + (int \<times> world)" where
  "Query E k name w =
    (let wid = next_addr w;
         w0 = w\<lparr>wraps := (wraps w)(wid \<mapsto>
                    \<lparr>wrap_class = k, response_data = None, callback_ptr = None\<rparr>),
                next_addr := Suc wid\<rparr>
     in case ModifyActivityQueryCount 1 w0 of
          Inl e \<Rightarrow> Inl e
        | Inr w1 \<Rightarrow>
            (case Send E k wid name w1 of
               Inl e \<Rightarrow> Inl e
             | Inr (err, w2) \<Rightarrow>
                 if err \<noteq> 0 then
                   (case ModifyActivityQueryCount (- 1) w2 of
                      Inl e \<Rightarrow> Inl e
                    | Inr w3 \<Rightarrow>
                        (case QueryWrap_dtor wid w3 of
                           Inl e \<Rightarrow> Inl e
                         | Inr w4 \<Rightarrow> Inr (err, w4)))
                 else Inr (err, w2)))"

section \<open>Interleavings\<close>

text \<open>
  What can happen on a channel, in any order: the caller dispatches a query, the engine
  completes one through its token, the loop runs the next immediate.
\<close>

datatype step =
    Dispatch host_env wrap_kind string
  | Complete nat int "8 word list"
  | CompleteHost nat int hostent
  | Immediate decoders

fun do_step :: "step \<Rightarrow> world \<Rightarrow> error + world" where
  "do_step (Dispatch E k name) w =
    (case Query E k name w of Inl e \<Rightarrow> Inl e | Inr (_, w1) \<Rightarrow> Inr w1)"
| "do_step (Complete p status answer) w = Callback_buf p status answer w"
| "do_step (CompleteHost p status host) w = Callback_host p status host w"
| "do_step (Immediate D) w = run_immediate D w"

fun run :: "step list \<Rightarrow> world \<Rightarrow> error + world" where
  "run [] w = Inr w"
| "run (s # ss) w = (case do_step s w of Inl e \<Rightarrow> Inl e | Inr w1 \<Rightarrow> run ss w1)"

text \<open>The tokens the engine still holds for a live query.\<close>

definition outstanding :: "world \<Rightarrow> nat set" where
  "outstanding w = {p. \<exists>wid. cells w p = Some (Some wid)}"

text \<open>
  Counting the steps of an interleaving. A dispatch is accepted when \<open>Send\<close> returns 0:
  always for the query wraps, and for \<open>GetHostByAddrWrap\<close> when the name parses as an
  address. A completion is a call of either completion callback. \<open>in_flight\<close> is the number
  of accepted dispatches less the number of completions, and \<open>in_flight_bounded\<close> says that
  every dispatch of the interleaving is made while it is below \<open>INT_MAX\<close>.
\<close>

fun accepted :: "step \<Rightarrow> bool" where
  "accepted (Dispatch E k name) =
    (k \<noteq> GetHostByAddrWrap \<or> env_inet_pton E AF_INET name \<noteq> None \<or>
     env_inet_pton E AF_INET6 name \<noteq> None)"
| "accepted (Complete p status answer) = False"
| "accepted (CompleteHost p status host) = False"
| "accepted (Immediate D) = False"

fun completion :: "step \<Rightarrow> bool" where
  "completion (Dispatch E k name) = False"
| "completion (Complete p status answer) = True"
| "completion (CompleteHost p status host) = True"
| "completion (Immediate D) = False"

definition in_flight :: "step list \<Rightarrow> int" where
  "in_flight ss = int (length (filter accepted ss)) - int (length (filter completion ss))"

fun is_dispatch :: "step \<Rightarrow> bool" where
  "is_dispatch (Dispatch E k name) = True"
| "is_dispatch (Complete p status answer) = False"
| "is_dispatch (CompleteHost p status host) = False"
| "is_dispatch (Immediate D) = False"

definition in_flight_bounded :: "step list \<Rightarrow> bool" where
  "in_flight_bounded ss =
    (\<forall>n \<in> {..<length ss}. is_dispatch (ss ! n) \<longrightarrow> in_flight (take n ss) < 2147483647)"

section \<open>Invariants and frames\<close>

text \<open>\<open>adds_trace w w'\<close>: \<open>w'\<close> is \<open>w\<close> with more outgoing calls and nothing else changed.\<close>

definition adds_trace :: "world \<Rightarrow> world \<Rightarrow> bool" where
  "adds_trace w w' \<longleftrightarrow> (\<exists>es. w' = w\<lparr>trace := trace w @ es\<rparr>)"


text \<open>\<open>same_heap w w'\<close>: the heap, the immediates and the in-flight counter are the same.\<close>

definition same_heap :: "world \<Rightarrow> world \<Rightarrow> bool" where
  "same_heap w w' \<longleftrightarrow>
     cells w' = cells w \<and> wraps w' = wraps w \<and> immediates w' = immediates w \<and>
     next_addr w' = next_addr w \<and>
     active_query_count (channel w') = active_query_count (channel w)"

text \<open>
  The invariant behind the in-flight counter: nothing is allocated beyond \<open>next_addr\<close>, a
  live token points to an allocated address, no token cell holds null (no lifecycle object
  was destroyed while the engine held its token), a lifecycle object waiting for delivery
  has given up its token, and the counter is the number of tokens the engine holds and
  fits a C \<open>int\<close>.
\<close>

definition count_inv :: "world \<Rightarrow> bool" where
  "count_inv w \<longleftrightarrow>
     (\<forall>p. next_addr w \<le> p \<longrightarrow> cells w p = None) \<and>
     (\<forall>p wid. cells w p = Some (Some wid) \<longrightarrow> wid < next_addr w) \<and>
     (\<forall>p. cells w p \<noteq> Some None) \<and>
     (\<forall>i \<in> set (immediates w). i < next_addr w \<and>
         (\<forall>q. wraps w i = Some q \<longrightarrow> callback_ptr q = None)) \<and>
     active_query_count (channel w) = int (card (outstanding w)) \<and>
     active_query_count (channel w) \<le> 2147483647"

text \<open>The registry's invariants: one task per socket, and the timer runs exactly when
  there is a task.\<close>

definition registry_inv :: "world \<Rightarrow> bool" where
  "registry_inv w \<longleftrightarrow>
     distinct (map sock (task_list (channel w))) \<and>
     (timer_running (channel w) \<longleftrightarrow> task_list (channel w) \<noteq> [])"

section \<open>Example inputs\<close>

definition loopback_server :: ares_addr_port_node where
  "loopback_server = \<lparr>family = AF_INET, addr_bytes = [127, 0, 0, 1], udp_port = 0, tcp_port = 0\<rparr>"

definition public_server :: ares_addr_port_node where
  "public_server = \<lparr>family = AF_INET, addr_bytes = [8, 8, 8, 8], udp_port = 53, tcp_port = 53\<rparr>"

text \<open>A channel whose engine reports the servers \<open>ss\<close>.\<close>

definition channel_with_servers :: "ares_addr_port_node list \<Rightarrow> world" where
  "channel_with_servers ss = ChannelWrap_new 0 ARES_SUCCESS (ARES_SUCCESS, \<lparr>servers = ss\<rparr>)"

text \<open>The same after a query was refused by the only server.\<close>

definition channel_after_refusal :: "ares_addr_port_node list \<Rightarrow> world" where
  "channel_after_refusal ss = set_query_last_ok False (channel_with_servers ss)"

definition example_env :: host_env where
  "example_env =
    \<lparr>env_library_init = ARES_SUCCESS,
     env_init_options = (ARES_SUCCESS, \<lparr>servers = [public_server]\<rparr>),
     env_inet_pton = (\<lambda>af ip. if af = AF_INET \<and> ip = ''8.8.4.4'' then Some [8, 8, 4, 4] else None)\<rparr>"

definition empty_hostent :: hostent where
  "empty_hostent = \<lparr>h_name = None, h_aliases = [], h_addrtype = 0, h_length = 0, h_addr_list = []\<rparr>"

text \<open>An answer that holds no record of any type: every pass reports \<open>ENODATA\<close> (the SOA
  pass, which scans the answer itself, success without a record).\<close>

definition decoders_nodata :: decoders where
  "decoders_nodata =
    \<lparr>ares_parse_hostent = (\<lambda>ty buf. (ARES_ENODATA, empty_hostent, 0, (\<lambda>i. 0))),
     uv_inet_ntop = (\<lambda>af a. []),
     parse_mx = (\<lambda>need_type buf. (ARES_ENODATA, [])),
     parse_txt = (\<lambda>need_type buf. (ARES_ENODATA, [])),
     parse_srv = (\<lambda>need_type buf. (ARES_ENODATA, [])),
     parse_naptr = (\<lambda>need_type buf. (ARES_ENODATA, [])),
     parse_caa = (\<lambda>need_type buf. (ARES_ENODATA, [])),
     parse_soa = (\<lambda>buf. (ARES_SUCCESS, None)),
     parse_single = (\<lambda>buf. (ARES_ENODATA, JsArr [], None))\<rparr>"

text \<open>The same answer with an SRV record the engine rejects as malformed, and with a PTR
  record it rejects as malformed.\<close>

definition decoders_srv_bad :: decoders where
  "decoders_srv_bad = decoders_nodata\<lparr>parse_srv := (\<lambda>need_type buf. (ARES_EBADRESP, []))\<rparr>"

definition decoders_ptr_bad :: decoders where
  "decoders_ptr_bad =
    decoders_nodata\<lparr>ares_parse_hostent :=
      (\<lambda>ty buf. if ty = ns_t_ptr then (ARES_EBADRESP, empty_hostent, 0, (\<lambda>i. 0))
                else (ARES_ENODATA, empty_hostent, 0, (\<lambda>i. 0)))\<rparr>"

text \<open>A channel with one query in flight: the lifecycle object is at address 0, its token
  cell at address 1.\<close>

definition one_query_world :: world where
  "one_query_world =
    (case Query example_env QuerySingleWrap ''example.org'' (channel_with_servers [public_server]) of
       Inr (err, w) \<Rightarrow> w
     | Inl e \<Rightarrow> channel_with_servers [public_server])"

text \<open>A channel after the engine asked for socket 7 to be watched for reading, and one
  after it asked for socket 5 while \<open>uv_poll_init_socket\<close> failed.\<close>

definition one_task_world :: world where
  "one_task_world = projr (ares_sockstate_cb True 7 1 0 (channel_with_servers [public_server]))"

definition failed_poll_world :: world where
  "failed_poll_world = projr (ares_sockstate_cb False 5 1 0 (channel_with_servers [public_server]))"


definition example_hostent :: hostent where
  "example_hostent =
    \<lparr>h_name = Some ''dns.google'', h_aliases = [''dns.google''], h_addrtype = AF_INET,
     h_length = 4, h_addr_list = [[8, 8, 4, 4]]\<rparr>"

text \<open>A query that is accepted (object 0, token 1), a reverse lookup that is rejected (the
  name is not an address; object 2), one that is accepted (object 3, token 4), the
  completions of the two accepted ones, and their deliveries.\<close>

definition example_steps :: "step list" where
  "example_steps =
    [Dispatch example_env QuerySingleWrap ''example.org'',
     Dispatch example_env GetHostByAddrWrap ''not an address'',
     Dispatch example_env GetHostByAddrWrap ''8.8.4.4'',
     Complete 1 ARES_ENOTFOUND [],
     CompleteHost 4 ARES_SUCCESS example_hostent,
     Immediate decoders_nodata,
     Immediate decoders_nodata]"

text \<open>The same query dispatched \<open>n\<close> times, none of them completed.\<close>

definition dispatch_flood :: "nat \<Rightarrow> step list" where
  "dispatch_flood n = replicate n (Dispatch example_env QuerySingleWrap ''example.org'')"

section \<open>The example inputs, evaluated\<close>

lemmas ares_codes =
  ARES_SUCCESS_def ARES_ENODATA_def ARES_EFORMERR_def ARES_ESERVFAIL_def
  ARES_ENOTFOUND_def ARES_ENOTIMP_def ARES_EREFUSED_def ARES_EBADQUERY_def
  ARES_EBADNAME_def ARES_EBADFAMILY_def ARES_EBADRESP_def ARES_ECONNREFUSED_def
  ARES_ETIMEOUT_def ARES_EOF_def ARES_EFILE_def ARES_ENOMEM_def ARES_EDESTRUCTION_def
  ARES_EBADSTR_def ARES_EBADFLAGS_def ARES_ENONAME_def ARES_EBADHINTS_def
  ARES_ENOTINITIALIZED_def ARES_ELOADIPHLPAPI_def ARES_EADDRGETNETWORKPARAMS_def
  ARES_ECANCELLED_def

lemmas eval_defs =
  channel_with_servers_def ChannelWrap_new_def world_init_def ChannelWrap_init_def Setup_def
  Query_def Send_def EnsureServers_def engine_send_def MakeCallbackPointer_def
  ModifyActivityQueryCount_def int32_def example_env_def Let_def ares_codes
  set_query_last_ok_def channel_after_refusal_def CloseTimer_def

lemma one_query_world_eq:
  "one_query_world =
    \<lparr>channel = \<lparr>timer_handle = None, cares_channel = Some \<lparr>servers = [public_server]\<rparr>,
                 query_last_ok = True, is_servers_default = True, library_inited = True,
                 timeout = 0, active_query_count = 1, task_list = []\<rparr>,
      closing_handles = [], immediates = [],
      wraps = [0 \<mapsto> \<lparr>wrap_class = QuerySingleWrap, response_data = None, callback_ptr = Some 1\<rparr>],
      cells = [1 \<mapsto> Some 0],
      next_addr = 2,
      trace = [AresLibraryInit, AresInitOptions 0, AresSend 1]\<rparr>"
  by (simp add: one_query_world_def eval_defs)



lemma one_task_world_eq:
  "one_task_world =
    (channel_with_servers [public_server])
      \<lparr>channel := (channel (channel_with_servers [public_server]))
          \<lparr>timer_handle := Some \<lparr>timer_active = True, timer_timeout = 1, timer_repeat = 1\<rparr>,
           task_list := [\<lparr>sock = 7, poll_events = 1\<rparr>]\<rparr>\<rparr>"
  by (simp add: one_task_world_def ares_sockstate_cb_def task_find_def StartTimer_def
      ares_task_create_def task_insert_def uv_poll_start_def poll_interest_def UV_READABLE_def
      uv_timer_start_def uv_timer_init_def armed_timeout_def eval_defs)

section \<open>Properties of the idle timer\<close>

lemma armed_timeout_range: "1 \<le> armed_timeout t \<and> armed_timeout t \<le> 1000"
  by (simp add: armed_timeout_def Let_def)

text \<open>
  Claim C8. Whatever the configured timeout, \<open>StartTimer\<close> either finds the timer already
  running and leaves the channel alone, or starts the repeating timer with a period in
  \<open>[1, 1000]\<close> milliseconds: 0 becomes 1, a negative value or one above 1000 becomes 1000,
  and a value in range is used as it is.
\<close>

theorem StartTimer_arms_clamped_period:
  "if timer_running c then StartTimer c = c
   else (\<exists>h. timer_handle (StartTimer c) = Some h \<and> timer_active h \<and>
              timer_repeat h = timer_timeout h \<and>
              1 \<le> timer_timeout h \<and> timer_timeout h \<le> 1000 \<and>
              timer_timeout h =
                (if timeout c = 0 then 1
                 else if timeout c < 0 \<or> 1000 < timeout c then 1000 else timeout c))"
  by (auto simp: StartTimer_def timer_running_def uv_timer_start_def uv_timer_init_def
      armed_timeout_def Let_def split: option.splits)

theorem StartTimer_arms_clamped_period_witness:
  "\<not> timer_running (ChannelWrap_init 0) \<and>
   timer_handle (StartTimer (ChannelWrap_init 0)) =
     Some \<lparr>timer_active = True, timer_timeout = 1, timer_repeat = 1\<rparr> \<and>
   timer_handle (StartTimer (ChannelWrap_init (- 5))) =
     Some \<lparr>timer_active = True, timer_timeout = 1000, timer_repeat = 1000\<rparr> \<and>
   timer_handle (StartTimer (ChannelWrap_init 70000)) =
     Some \<lparr>timer_active = True, timer_timeout = 1000, timer_repeat = 1000\<rparr> \<and>
   timer_handle (StartTimer (ChannelWrap_init 250)) =
     Some \<lparr>timer_active = True, timer_timeout = 250, timer_repeat = 250\<rparr>"
  using StartTimer_arms_clamped_period [of "ChannelWrap_init 0"]
        StartTimer_arms_clamped_period [of "ChannelWrap_init (- 5)"]
        StartTimer_arms_clamped_period [of "ChannelWrap_init 70000"]
        StartTimer_arms_clamped_period [of "ChannelWrap_init 250"]
  by (auto simp: ChannelWrap_init_def timer_running_def)

section \<open>Properties of the task registry\<close>

lemma task_find_Some: "task_find s ts = Some t \<Longrightarrow> t \<in> set ts \<and> sock t = s"
  by (auto simp: task_find_def find_Some_iff)

lemma task_find_None: "task_find s ts = None \<longleftrightarrow> s \<notin> sock ` set ts"
  by (auto simp: task_find_def find_None_iff)

lemma in_set_remove1D: "x \<in> set (remove1 t ts) \<Longrightarrow> x \<in> set ts"
  by (meson notin_set_remove1)

lemma distinct_sock_remove1:
  "distinct (map sock ts) \<Longrightarrow> distinct (map sock (remove1 t ts))"
  by (induction ts) (auto dest: in_set_remove1D)

lemma sock_remove1_gone:
  "distinct (map sock ts) \<Longrightarrow> t \<in> set ts \<Longrightarrow> sock t \<notin> sock ` set (remove1 t ts)"
proof (induction ts)
  case Nil
  then show ?case by simp
next
  case (Cons a ts)
  show ?case
  proof (cases "t = a")
    case True
    with Cons.prems show ?thesis by simp
  next
    case False
    with Cons.prems have "t \<in> set ts" and "sock t \<noteq> sock a"
      by (force simp: image_iff)+
    with Cons show ?thesis by auto
  qed
qed

lemma map_sock_uv_poll_start: "map sock (uv_poll_start s ev ts) = map sock ts"
  by (induction ts) (auto simp: uv_poll_start_def)

lemma uv_poll_start_Nil: "uv_poll_start s ev ts = [] \<longleftrightarrow> ts = []"
  by (simp add: uv_poll_start_def)

text \<open>
  Claim C9. A notification with neither flag set for a socket without a task fails the
  \<open>CHECK\<close>, which aborts the process. When the task exists, the callback removes it from
  the registry and asks the loop to close its poll handle (the close completes later, in
  \<open>run_close_cb\<close>); when the registry is empty afterwards the timer is closed as well. If
  the registry held one task per socket, none is left for this socket.
\<close>

theorem sockstate_close_notification:
  "(task_find s (task_list (channel w)) = None \<longrightarrow>
      ares_sockstate_cb ok s 0 0 w =
        Inl (CheckFailed ''When an ares socket is closed we should have a handle for it'')) \<and>
   (\<forall>t. task_find s (task_list (channel w)) = Some t \<longrightarrow>
      (\<exists>w'. ares_sockstate_cb ok s 0 0 w = Inr w' \<and>
            task_list (channel w') = remove1 t (task_list (channel w)) \<and>
            closing_handles w' =
              closing_handles w @ [PollHandle t] @
                (if task_list (channel w') = []
                 then (case timer_handle (channel w) of None \<Rightarrow> [] | Some h \<Rightarrow> [TimerHandle h])
                 else []) \<and>
            (distinct (map sock (task_list (channel w))) \<longrightarrow>
               task_find s (task_list (channel w')) = None)))"
  apply (intro conjI allI impI)
   apply (simp add: ares_sockstate_cb_def)
  apply (frule task_find_Some)
  apply (auto simp: ares_sockstate_cb_def Let_def task_erase_def CloseTimer_def task_find_None
      dest: sock_remove1_gone split: option.splits)
  done

theorem sockstate_close_notification_witness:
  "task_find 9 (task_list (channel one_task_world)) = None \<and>
   ares_sockstate_cb True 9 0 0 one_task_world =
     Inl (CheckFailed ''When an ares socket is closed we should have a handle for it'') \<and>
   task_find 7 (task_list (channel one_task_world)) = Some \<lparr>sock = 7, poll_events = 1\<rparr> \<and>
   \<not> isl (ares_sockstate_cb True 7 0 0 one_task_world) \<and>
   task_list (channel (projr (ares_sockstate_cb True 7 0 0 one_task_world))) = [] \<and>
   closing_handles (projr (ares_sockstate_cb True 7 0 0 one_task_world)) =
     [PollHandle \<lparr>sock = 7, poll_events = 1\<rparr>,
      TimerHandle \<lparr>timer_active = True, timer_timeout = 1, timer_repeat = 1\<rparr>]"
proof -
  have n: "task_find 9 (task_list (channel one_task_world)) = None"
    and s: "task_find 7 (task_list (channel one_task_world)) = Some \<lparr>sock = 7, poll_events = 1\<rparr>"
    by (simp_all add: one_task_world_eq task_find_def)
  have c: "closing_handles one_task_world = []"
    and t: "timer_handle (channel one_task_world) =
              Some \<lparr>timer_active = True, timer_timeout = 1, timer_repeat = 1\<rparr>"
    and l: "task_list (channel one_task_world) = [\<lparr>sock = 7, poll_events = 1\<rparr>]"
    by (simp_all add: one_task_world_eq eval_defs)
  from sockstate_close_notification [of 9 one_task_world True] n
  have 1: "ares_sockstate_cb True 9 0 0 one_task_world =
     Inl (CheckFailed ''When an ares socket is closed we should have a handle for it'')"
    by blast
  from sockstate_close_notification [of 7 one_task_world True] s
  obtain w' where "ares_sockstate_cb True 7 0 0 one_task_world = Inr w'"
    and "task_list (channel w') = remove1 \<lparr>sock = 7, poll_events = 1\<rparr> (task_list (channel one_task_world))"
    and "closing_handles w' =
              closing_handles one_task_world @ [PollHandle \<lparr>sock = 7, poll_events = 1\<rparr>] @
                (if task_list (channel w') = []
                 then (case timer_handle (channel one_task_world) of None \<Rightarrow> []
                       | Some h \<Rightarrow> [TimerHandle h])
                 else [])"
    by blast
  then have 2: "\<not> isl (ares_sockstate_cb True 7 0 0 one_task_world) \<and>
   task_list (channel (projr (ares_sockstate_cb True 7 0 0 one_task_world))) = [] \<and>
   closing_handles (projr (ares_sockstate_cb True 7 0 0 one_task_world)) =
     [PollHandle \<lparr>sock = 7, poll_events = 1\<rparr>,
      TimerHandle \<lparr>timer_active = True, timer_timeout = 1, timer_repeat = 1\<rparr>]"
    by (simp add: c t l)
  from n s 1 2 show ?thesis by blast
qed

text \<open>
  The registry never holds two tasks for one socket, whatever the notifications and
  whether or not the poll handles could be created; and as long as every poll handle can
  be created, the timer runs exactly when the registry is not empty.
\<close>

lemma sockstate_cb_distinct:
  assumes "distinct (map sock (task_list (channel w)))"
    and "ares_sockstate_cb ok s rd wr w = Inr w'"
  shows "distinct (map sock (task_list (channel w')))"
  using assms
  by (auto simp: ares_sockstate_cb_def Let_def StartTimer_def ares_task_create_def
      task_insert_def task_erase_def CloseTimer_def map_sock_uv_poll_start task_find_None
      distinct_sock_remove1
      split: option.splits if_splits)

lemma timer_running_StartTimer: "timer_running (StartTimer c)"
  by (simp add: StartTimer_def timer_running_def uv_timer_start_def split: option.splits)

lemma timer_running_task_list: "timer_running (c\<lparr>task_list := ts\<rparr>) = timer_running c"
  by (simp add: timer_running_def)

lemma task_list_StartTimer: "task_list (StartTimer c) = task_list c"
  by (simp add: StartTimer_def split: option.splits)

lemma sockstate_cb_registry_inv:
  assumes "registry_inv w" and "ares_sockstate_cb True s rd wr w = Inr w'"
  shows "registry_inv w'"
proof -
  from assms(1) have "distinct (map sock (task_list (channel w)))"
    by (simp add: registry_inv_def)
  then have d: "distinct (map sock (task_list (channel w')))"
    using assms(2) by (rule sockstate_cb_distinct)
  have "timer_running (channel w') \<longleftrightarrow> task_list (channel w') \<noteq> []"
  proof (cases "rd \<noteq> 0 \<or> wr \<noteq> 0")
    case True
    show ?thesis
    proof (cases "task_find s (task_list (channel w))")
      case None
      with True assms(2) show ?thesis
        by (auto simp: ares_sockstate_cb_def Let_def ares_task_create_def task_insert_def
            timer_running_StartTimer task_list_StartTimer uv_poll_start_Nil
            timer_running_task_list)
    next
      case (Some t)
      then have "task_list (channel w) \<noteq> []"
        by (auto simp: task_find_def)
      with True Some assms show ?thesis
        by (auto simp: ares_sockstate_cb_def Let_def registry_inv_def uv_poll_start_Nil
            timer_running_task_list)
    qed
  next
    case False
    with assms(2) obtain t where t: "task_find s (task_list (channel w)) = Some t"
      by (auto simp: ares_sockstate_cb_def Let_def split: option.splits)
    then have "task_list (channel w) \<noteq> []"
      by (auto simp: task_find_def)
    with assms(1) have run: "timer_running (channel w)"
      by (simp add: registry_inv_def)
    from False t assms(2) run show ?thesis
      by (auto simp: ares_sockstate_cb_def Let_def task_erase_def CloseTimer_def
          timer_running_def split: if_splits option.splits)
  qed
  with d show ?thesis by (simp add: registry_inv_def)
qed

lemma sockstate_run_registry_inv:
  "registry_inv w \<Longrightarrow> \<forall>n \<in> set ns. fst n \<Longrightarrow> sockstate_run ns w = Inr w' \<Longrightarrow> registry_inv w'"
proof (induction ns arbitrary: w)
  case Nil
  then show ?case by simp
next
  case (Cons n ns)
  obtain ok s rd wr where n: "n = (ok, s, rd, wr)" by (cases n)
  with Cons.prems(2) have ok by simp
  with Cons.prems(3) n obtain w1 where 1: "ares_sockstate_cb True s rd wr w = Inr w1"
    and 2: "sockstate_run ns w1 = Inr w'"
    by (auto split: sum.splits)
  from sockstate_cb_registry_inv [OF Cons.prems(1) 1] Cons.prems(2) 2 Cons.IH
  show ?case by simp
qed

lemma sockstate_run_distinct:
  "distinct (map sock (task_list (channel w))) \<Longrightarrow> sockstate_run ns w = Inr w' \<Longrightarrow>
     distinct (map sock (task_list (channel w')))"
proof (induction ns arbitrary: w)
  case Nil
  then show ?case by simp
next
  case (Cons n ns)
  obtain ok s rd wr where n: "n = (ok, s, rd, wr)" by (cases n)
  with Cons.prems(2) obtain w1 where 1: "ares_sockstate_cb ok s rd wr w = Inr w1"
    and 2: "sockstate_run ns w1 = Inr w'"
    by (auto split: sum.splits)
  from sockstate_cb_distinct [OF Cons.prems(1) 1] 2 Cons.IH
  show ?case by simp
qed

text \<open>
  Claim C4, at the input where the code departs from it. On a channel with an empty
  registry and no timer, the engine asks to watch socket 5 for reading and
  \<open>uv_poll_init_socket\<close> fails: \<open>StartTimer\<close> has already run when \<open>ares_task_create\<close>
  returns null, so the callback returns with the timer running and the registry empty.
  The next \<open>AresTimeout\<close> then fails its own \<open>CHECK\<close> that the registry is not empty.
\<close>

theorem timer_started_without_task:
  "registry_inv (channel_with_servers [public_server]) \<and>
   ares_sockstate_cb False 5 1 0 (channel_with_servers [public_server]) = Inr failed_poll_world \<and>
   timer_running (channel failed_poll_world) \<and>
   task_list (channel failed_poll_world) = [] \<and>
   AresTimeout failed_poll_world = Inl (CheckFailed ''CHECK_EQ(false, task_list()->empty())'')"
  by (simp add: failed_poll_world_def ares_sockstate_cb_def task_find_def StartTimer_def
      ares_task_create_def timer_running_def uv_timer_start_def uv_timer_init_def
      armed_timeout_def AresTimeout_def registry_inv_def eval_defs)

theorem timer_started_without_task_witness:
  "timer_running (channel failed_poll_world) \<and> task_list (channel failed_poll_world) = [] \<and>
   isl (AresTimeout failed_poll_world)"
  using timer_started_without_task by simp

section \<open>Properties of fallback-server detection\<close>

lemma Setup_recreate:
  assumes "library_inited (channel w)"
  shows "trace (Setup lib_r init w) =
           trace w @ [AresInitOptions (timeout (channel w))] @
             (if fst init = ARES_SUCCESS then []
              else [AresLibraryCleanup, ThrowError (ToErrorCodeString (fst init))])"
    and "cares_channel (channel (Setup lib_r init w)) =
           (if fst init = ARES_SUCCESS then Some (snd init) else cares_channel (channel w))"
    and "timer_handle (channel (Setup lib_r init w)) = timer_handle (channel w)"
    and "is_servers_default (channel (Setup lib_r init w)) = is_servers_default (channel w)"
  using assms by (simp_all add: Setup_def Let_def)

text \<open>
  Claim C3, as amended. On a channel with an engine instance:
  \<^item> if the last query was ok or the servers are not the default ones, \<open>EnsureServers\<close>
    does nothing;
  \<^item> otherwise, if the engine reports no server at all, it does nothing either;
  \<^item> if the engine reports exactly one server, IPv4 127.0.0.1 with both ports zero, the
    engine instance is destroyed, the timer closed and \<open>Setup\<close> run again: the channel
    holds the new instance when \<open>ares_init_options\<close> succeeds, and \<open>is_servers_default\<close>
    stays true;
  \<^item> in every other case (several servers, or a single one that is not that signature)
    \<open>is_servers_default\<close> becomes false and nothing else changes: the engine is not
    touched.
\<close>

theorem EnsureServers_fallback_detection:
  assumes "cares_channel (channel w) = Some e" and "library_inited (channel w)"
  shows
   "(query_last_ok (channel w) \<or> \<not> is_servers_default (channel w) \<longrightarrow>
       EnsureServers lib_r init w = Inr w) \<and>
    (\<not> query_last_ok (channel w) \<and> is_servers_default (channel w) \<longrightarrow>
       (servers e = [] \<longrightarrow> EnsureServers lib_r init w = Inr w) \<and>
       ((\<exists>s. servers e = [s] \<and> family s = AF_INET \<and> is_loopback4 (addr_bytes s) \<and>
             tcp_port s = 0 \<and> udp_port s = 0) \<longrightarrow>
          (\<exists>w'. EnsureServers lib_r init w = Inr w' \<and>
                trace w' =
                  trace w @ [AresDestroy, AresInitOptions (timeout (channel w))] @
                    (if fst init = ARES_SUCCESS then []
                     else [AresLibraryCleanup, ThrowError (ToErrorCodeString (fst init))]) \<and>
                cares_channel (channel w') =
                  (if fst init = ARES_SUCCESS then Some (snd init) else None) \<and>
                timer_handle (channel w') = None \<and>
                is_servers_default (channel w'))) \<and>
       (servers e \<noteq> [] \<and>
        \<not> (\<exists>s. servers e = [s] \<and> family s = AF_INET \<and> is_loopback4 (addr_bytes s) \<and>
                tcp_port s = 0 \<and> udp_port s = 0) \<longrightarrow>
          EnsureServers lib_r init w =
            Inr (w\<lparr>channel := (channel w)\<lparr>is_servers_default := False\<rparr>\<rparr>)))"
proof -
  let ?w1 = "CloseTimer (w\<lparr>trace := trace w @ [AresDestroy],
                            channel := (channel w)\<lparr>cares_channel := None\<rparr>\<rparr>)"
  have li: "library_inited (channel ?w1)"
    using assms(2) by (simp add: CloseTimer_def split: option.splits)
  have f: "trace ?w1 = trace w @ [AresDestroy]" "cares_channel (channel ?w1) = None"
    "timer_handle (channel ?w1) = None" "timeout (channel ?w1) = timeout (channel w)"
    "is_servers_default (channel ?w1) = is_servers_default (channel w)"
    by (simp_all add: CloseTimer_def split: option.splits)
  show ?thesis
    using assms(1) Setup_recreate [OF li, of lib_r init]
    by (auto simp: EnsureServers_def f split: list.splits)
qed

text \<open>
  Claim C3 as stated fails for an empty server list: with \<open>query_last_ok\<close> false and
  \<open>is_servers_default\<close> true, \<open>EnsureServers\<close> returns at \<open>servers == nullptr\<close> and the flag
  is still true.
\<close>

theorem EnsureServers_no_servers_counterexample:
  "\<not> query_last_ok (channel (channel_after_refusal [])) \<and>
   is_servers_default (channel (channel_after_refusal [])) \<and>
   cares_channel (channel (channel_after_refusal [])) = Some \<lparr>servers = []\<rparr> \<and>
   EnsureServers ARES_SUCCESS (ARES_SUCCESS, \<lparr>servers = [public_server]\<rparr>)
       (channel_after_refusal []) = Inr (channel_after_refusal [])"
  by (simp add: eval_defs)

theorem EnsureServers_fallback_detection_witness:
  "cares_channel (channel (channel_after_refusal [loopback_server])) =
     Some \<lparr>servers = [loopback_server]\<rparr> \<and>
   library_inited (channel (channel_after_refusal [loopback_server])) \<and>
   \<not> query_last_ok (channel (channel_after_refusal [loopback_server])) \<and>
   is_servers_default (channel (channel_after_refusal [loopback_server])) \<and>
   \<not> isl (EnsureServers ARES_SUCCESS (ARES_SUCCESS, \<lparr>servers = [public_server]\<rparr>)
             (channel_after_refusal [loopback_server])) \<and>
   trace (projr (EnsureServers ARES_SUCCESS (ARES_SUCCESS, \<lparr>servers = [public_server]\<rparr>)
             (channel_after_refusal [loopback_server]))) =
     [AresLibraryInit, AresInitOptions 0, AresDestroy, AresInitOptions 0] \<and>
   cares_channel (channel (projr (EnsureServers ARES_SUCCESS
             (ARES_SUCCESS, \<lparr>servers = [public_server]\<rparr>)
             (channel_after_refusal [loopback_server])))) =
     Some \<lparr>servers = [public_server]\<rparr> \<and>
   EnsureServers ARES_SUCCESS (ARES_SUCCESS, \<lparr>servers = [public_server]\<rparr>)
       (channel_after_refusal [public_server]) =
     Inr ((channel_after_refusal [public_server])
            \<lparr>channel := (channel (channel_after_refusal [public_server]))
                \<lparr>is_servers_default := False\<rparr>\<rparr>) \<and>
   EnsureServers ARES_SUCCESS (ARES_SUCCESS, \<lparr>servers = [public_server]\<rparr>)
       (channel_after_refusal [loopback_server, public_server]) =
     Inr ((channel_after_refusal [loopback_server, public_server])
            \<lparr>channel := (channel (channel_after_refusal [loopback_server, public_server]))
                \<lparr>is_servers_default := False\<rparr>\<rparr>) \<and>
   EnsureServers ARES_SUCCESS (ARES_SUCCESS, \<lparr>servers = [public_server]\<rparr>)
       (channel_with_servers [loopback_server]) = Inr (channel_with_servers [loopback_server])"
proof -
  have h: "cares_channel (channel (channel_after_refusal ss)) = Some \<lparr>servers = ss\<rparr>"
    "library_inited (channel (channel_after_refusal ss))"
    "\<not> query_last_ok (channel (channel_after_refusal ss))"
    "is_servers_default (channel (channel_after_refusal ss))"
    "trace (channel_after_refusal ss) = [AresLibraryInit, AresInitOptions 0]"
    "timeout (channel (channel_after_refusal ss)) = 0"
    for ss
    by (simp_all add: eval_defs)
  have g: "cares_channel (channel (channel_with_servers ss)) = Some \<lparr>servers = ss\<rparr>"
    "library_inited (channel (channel_with_servers ss))"
    "query_last_ok (channel (channel_with_servers ss))"
    for ss
    by (simp_all add: eval_defs)
  note T = EnsureServers_fallback_detection
  from T [OF h(1) h(2), of "[loopback_server]" ARES_SUCCESS
      "(ARES_SUCCESS, \<lparr>servers = [public_server]\<rparr>)"]
  have 1: "\<not> isl (EnsureServers ARES_SUCCESS (ARES_SUCCESS, \<lparr>servers = [public_server]\<rparr>)
             (channel_after_refusal [loopback_server])) \<and>
   trace (projr (EnsureServers ARES_SUCCESS (ARES_SUCCESS, \<lparr>servers = [public_server]\<rparr>)
             (channel_after_refusal [loopback_server]))) =
     [AresLibraryInit, AresInitOptions 0, AresDestroy, AresInitOptions 0] \<and>
   cares_channel (channel (projr (EnsureServers ARES_SUCCESS
             (ARES_SUCCESS, \<lparr>servers = [public_server]\<rparr>)
             (channel_after_refusal [loopback_server])))) =
     Some \<lparr>servers = [public_server]\<rparr>"
    by (auto simp: h loopback_server_def is_loopback4_def)
  from T [OF h(1) h(2), of "[public_server]" ARES_SUCCESS
      "(ARES_SUCCESS, \<lparr>servers = [public_server]\<rparr>)"]
  have 2: "EnsureServers ARES_SUCCESS (ARES_SUCCESS, \<lparr>servers = [public_server]\<rparr>)
       (channel_after_refusal [public_server]) =
     Inr ((channel_after_refusal [public_server])
            \<lparr>channel := (channel (channel_after_refusal [public_server]))
                \<lparr>is_servers_default := False\<rparr>\<rparr>)"
    by (simp add: h public_server_def is_loopback4_def)
  from T [OF h(1) h(2), of "[loopback_server, public_server]" ARES_SUCCESS
      "(ARES_SUCCESS, \<lparr>servers = [public_server]\<rparr>)"]
  have 3: "EnsureServers ARES_SUCCESS (ARES_SUCCESS, \<lparr>servers = [public_server]\<rparr>)
       (channel_after_refusal [loopback_server, public_server]) =
     Inr ((channel_after_refusal [loopback_server, public_server])
            \<lparr>channel := (channel (channel_after_refusal [loopback_server, public_server]))
                \<lparr>is_servers_default := False\<rparr>\<rparr>)"
    by (simp add: h)
  from T [OF g(1) g(2), of "[loopback_server]" ARES_SUCCESS
      "(ARES_SUCCESS, \<lparr>servers = [public_server]\<rparr>)"]
  have 4: "EnsureServers ARES_SUCCESS (ARES_SUCCESS, \<lparr>servers = [public_server]\<rparr>)
       (channel_with_servers [loopback_server]) = Inr (channel_with_servers [loopback_server])"
    by (simp add: g)
  from h [of "[loopback_server]"] 1 2 3 4 show ?thesis by blast
qed

section \<open>Properties of set-servers\<close>

text \<open>
  Claim C7. While the in-flight counter is not zero, \<open>SetServers\<close> returns
  \<open>DNS_ESETSRVPENDING\<close> and the world is unchanged: no call into the engine is made, so its
  server list is the same, and so is the channel. The code is none of the engine's
  statuses; \<open>ToErrorCodeString\<close> has no case for it.
\<close>

theorem SetServers_pending_queries:
  "active_query_count (channel w) \<noteq> 0 \<Longrightarrow>
     SetServers pton rv arr w = Inr (DNS_ESETSRVPENDING, w) \<and>
     DNS_ESETSRVPENDING \<notin> set engine_status_codes \<and>
     ToErrorCodeString DNS_ESETSRVPENDING = ''UNKNOWN_ARES_ERROR''"
  by (simp add: SetServers_def engine_status_codes_def DNS_ESETSRVPENDING_def ares_codes
      ToErrorCodeString_def)

theorem SetServers_pending_queries_witness:
  "active_query_count (channel one_query_world) \<noteq> 0 \<and>
   SetServers (env_inet_pton example_env) ARES_SUCCESS [(4, ''8.8.4.4'', 53)] one_query_world =
     Inr (DNS_ESETSRVPENDING, one_query_world) \<and>
   cares_channel (channel one_query_world) = Some \<lparr>servers = [public_server]\<rparr>"
proof -
  have h: "active_query_count (channel one_query_world) \<noteq> 0"
    by (simp add: one_query_world_eq)
  from SetServers_pending_queries [OF h, of "env_inet_pton example_env" ARES_SUCCESS
      "[(4, ''8.8.4.4'', 53)]"] h
  show ?thesis
    by (simp add: one_query_world_eq)
qed

lemma engine_set_servers_default:
  "engine_set_servers rv ns w = Inr w1 \<Longrightarrow>
     is_servers_default (channel w1) = is_servers_default (channel w)"
  by (auto simp: engine_set_servers_def split: option.splits)

text \<open>
  Claim C10. When \<open>SetServers\<close> returns, \<open>is_servers_default\<close> is false if no query was in
  flight, the list was not empty, every address parsed and the engine returned success;
  in every other case the flag is what it was.
\<close>

theorem SetServers_is_servers_default:
  "SetServers pton rv arr w = Inr (r, w') \<Longrightarrow>
     is_servers_default (channel w') =
       (if active_query_count (channel w) = 0 \<and> arr \<noteq> [] \<and>
           (\<exists>ns. SetServers_loop pton arr = Inr (Some ns)) \<and> rv = ARES_SUCCESS
        then False else is_servers_default (channel w))"
  by (auto simp: SetServers_def dest: engine_set_servers_default
      split: if_splits sum.splits option.splits)

lemma servers_applied:
  "SetServers (env_inet_pton example_env) ARES_SUCCESS [(4, ''8.8.4.4'', 53)]
      (channel_with_servers [public_server]) =
   Inr (ARES_SUCCESS,
        (channel_with_servers [public_server])
          \<lparr>trace := trace (channel_with_servers [public_server]) @
               [AresSetServers [\<lparr>family = AF_INET, addr_bytes = [8, 8, 4, 4], udp_port = 53, tcp_port = 53\<rparr>]],
           channel := (channel (channel_with_servers [public_server]))
              \<lparr>cares_channel := Some \<lparr>servers =
                   [\<lparr>family = AF_INET, addr_bytes = [8, 8, 4, 4], udp_port = 53, tcp_port = 53\<rparr>]\<rparr>,
               is_servers_default := False\<rparr>\<rparr>)"
  by (simp add: SetServers_def engine_set_servers_def eval_defs)

lemma servers_cleared:
  "SetServers (env_inet_pton example_env) ARES_SUCCESS [] (channel_with_servers [public_server]) =
   Inr (ARES_SUCCESS,
        (channel_with_servers [public_server])
          \<lparr>trace := trace (channel_with_servers [public_server]) @ [AresSetServers []],
           channel := (channel (channel_with_servers [public_server]))
              \<lparr>cares_channel := Some \<lparr>servers = []\<rparr>\<rparr>\<rparr>)"
  by (simp add: SetServers_def engine_set_servers_def eval_defs)

lemma servers_unparsed:
  "SetServers (env_inet_pton example_env) ARES_SUCCESS [(4, ''8.8.4.4'', 53), (6, ''::x'', 53)]
     (channel_with_servers [public_server]) =
   Inr (ARES_EBADSTR, channel_with_servers [public_server])"
  by (simp add: SetServers_def engine_set_servers_def eval_defs)

lemma servers_rejected:
  "SetServers (env_inet_pton example_env) ARES_ENOMEM [(4, ''8.8.4.4'', 53)]
     (channel_with_servers [public_server]) =
   Inr (ARES_ENOMEM,
        (channel_with_servers [public_server])
          \<lparr>trace := trace (channel_with_servers [public_server]) @
               [AresSetServers [\<lparr>family = AF_INET, addr_bytes = [8, 8, 4, 4], udp_port = 53, tcp_port = 53\<rparr>]]\<rparr>)"
  by (simp add: SetServers_def engine_set_servers_def eval_defs)

theorem SetServers_is_servers_default_witness:
  "is_servers_default (channel (channel_with_servers [public_server])) \<and>
   \<not> is_servers_default (channel (snd (projr
       (SetServers (env_inet_pton example_env) ARES_SUCCESS [(4, ''8.8.4.4'', 53)]
          (channel_with_servers [public_server]))))) \<and>
   is_servers_default (channel (snd (projr
       (SetServers (env_inet_pton example_env) ARES_SUCCESS []
          (channel_with_servers [public_server]))))) \<and>
   is_servers_default (channel (snd (projr
       (SetServers (env_inet_pton example_env) ARES_SUCCESS
          [(4, ''8.8.4.4'', 53), (6, ''::x'', 53)]
          (channel_with_servers [public_server]))))) \<and>
   is_servers_default (channel (snd (projr
       (SetServers (env_inet_pton example_env) ARES_ENOMEM [(4, ''8.8.4.4'', 53)]
          (channel_with_servers [public_server])))))"
proof -
  have d: "is_servers_default (channel (channel_with_servers [public_server]))"
    and a: "active_query_count (channel (channel_with_servers [public_server])) = 0"
    by (simp_all add: eval_defs)
  have l1: "SetServers_loop (env_inet_pton example_env) [(4, ''8.8.4.4'', 53)] =
      Inr (Some [\<lparr>family = AF_INET, addr_bytes = [8, 8, 4, 4], udp_port = 53, tcp_port = 53\<rparr>])"
    and l2: "SetServers_loop (env_inet_pton example_env) [(4, ''8.8.4.4'', 53), (6, ''::x'', 53)] =
      Inr None"
    by (simp_all add: example_env_def AF_INET_def AF_INET6_def)
  from SetServers_is_servers_default [OF servers_applied] d a l1
  have 1: "\<not> is_servers_default (channel (snd (projr
       (SetServers (env_inet_pton example_env) ARES_SUCCESS [(4, ''8.8.4.4'', 53)]
          (channel_with_servers [public_server])))))"
    unfolding servers_applied by simp
  from SetServers_is_servers_default [OF servers_cleared] d
  have 2: "is_servers_default (channel (snd (projr
       (SetServers (env_inet_pton example_env) ARES_SUCCESS []
          (channel_with_servers [public_server])))))"
    unfolding servers_cleared by simp
  from SetServers_is_servers_default [OF servers_unparsed] d l2
  have 3: "is_servers_default (channel (snd (projr
       (SetServers (env_inet_pton example_env) ARES_SUCCESS
          [(4, ''8.8.4.4'', 53), (6, ''::x'', 53)]
          (channel_with_servers [public_server])))))"
    unfolding servers_unparsed by simp
  from SetServers_is_servers_default [OF servers_rejected] d
  have 4: "is_servers_default (channel (snd (projr
       (SetServers (env_inet_pton example_env) ARES_ENOMEM [(4, ''8.8.4.4'', 53)]
          (channel_with_servers [public_server])))))"
    unfolding servers_rejected by (simp add: ares_codes)
  from d 1 2 3 4 show ?thesis by blast
qed

section \<open>Properties of the query lifecycle\<close>

lemma adds_trace_refl: "adds_trace w w"
  by (auto simp: adds_trace_def intro: exI [of _ "[]"])

lemma ParseError_adds: "ParseError wid st w = Inr w' \<Longrightarrow> adds_trace w w'"
  by (auto simp: ParseError_def adds_trace_def split: if_splits)

lemma CallOnComplete_adds: "CallOnComplete wid a x w = Inr w' \<Longrightarrow> adds_trace w w'"
  by (auto simp: CallOnComplete_def adds_trace_def)

lemma QueryAnyWrap_Parse_adds:
  "QueryAnyWrap_Parse D wid buf w = Inr w' \<Longrightarrow> adds_trace w w'"
  unfolding QueryAnyWrap_Parse_def Let_def
  by (auto split: sum.splits prod.splits if_splits
      intro: ParseError_adds CallOnComplete_adds adds_trace_refl)


lemma AfterResponse_adds: "AfterResponse D wid w = Inr w' \<Longrightarrow> adds_trace w w'"
  by (auto simp: AfterResponse_def QuerySingleWrap_Parse_def GetHostByAddrWrap_Parse_def
      split: option.splits if_splits wrap_kind.splits prod.splits
      intro: ParseError_adds CallOnComplete_adds QueryAnyWrap_Parse_adds)

lemma QueryWrap_dtor_no_ptr:
  "wraps w wid = Some q \<Longrightarrow> callback_ptr q = None \<Longrightarrow>
     QueryWrap_dtor wid w = Inr (w\<lparr>wraps := (wraps w)(wid := None)\<rparr>)"
  by (simp add: QueryWrap_dtor_def)


text \<open>
  Claim C5. Take a query whose token the engine holds: the lifecycle object \<open>wid\<close> points
  to the cell \<open>p\<close> and the cell points back. If the object is destroyed first, the
  destructor leaves null in the cell, and either completion callback then only frees the
  cell: nothing is queued, nothing is delivered, no freed object is read. If the object is
  alive, \<open>FromCallbackPointer\<close> hands it on with its back-reference already null and the
  cell freed. After a callback has consumed the token the cell is gone and the object no
  longer refers to it: the token is used up, and a second call through it would read
  freed memory.
\<close>

theorem callback_token_safety:
  assumes "wraps w wid = Some q" and "callback_ptr q = Some p" and "cells w p = Some (Some wid)"
  shows "(\<exists>w1. QueryWrap_dtor wid w = Inr w1 \<and> cells w1 p = Some None \<and> wraps w1 wid = None \<and>
            Callback_buf p status answer w1 = Inr (w1\<lparr>cells := (cells w1)(p := None)\<rparr>) \<and>
            Callback_host p status host w1 = Inr (w1\<lparr>cells := (cells w1)(p := None)\<rparr>)) \<and>
         FromCallbackPointer p w =
           Inr (Some wid, w\<lparr>wraps := (wraps w)(wid \<mapsto> q\<lparr>callback_ptr := None\<rparr>),
                            cells := (cells w)(p := None)\<rparr>) \<and>
         (\<forall>w2. Callback_buf p status answer w = Inr w2 \<or> Callback_host p status host w = Inr w2 \<longrightarrow>
            cells w2 p = None \<and>
            (\<exists>q2. wraps w2 wid = Some q2 \<and> callback_ptr q2 = None) \<and>
            Callback_buf p status answer w2 = Inl (UndefinedBehaviour ''read of a freed token cell''))"
  using assms
  by (auto simp: QueryWrap_dtor_def Callback_buf_def Callback_host_def FromCallbackPointer_def
      set_response_data_def QueueResponseCallback_def set_query_last_ok_def
      ModifyActivityQueryCount_def Let_def
      split: option.splits sum.splits if_splits)

theorem callback_token_safety_witness:
  "wraps one_query_world 0 =
     Some \<lparr>wrap_class = QuerySingleWrap, response_data = None, callback_ptr = Some 1\<rparr> \<and>
   cells one_query_world 1 = Some (Some 0) \<and>
   \<not> isl (QueryWrap_dtor 0 one_query_world) \<and>
   cells (projr (QueryWrap_dtor 0 one_query_world)) 1 = Some None \<and>
   Callback_buf 1 ARES_SUCCESS [1, 2, 3] (projr (QueryWrap_dtor 0 one_query_world)) =
     Inr ((projr (QueryWrap_dtor 0 one_query_world))\<lparr>cells := Map.empty\<rparr>) \<and>
   immediates (projr (QueryWrap_dtor 0 one_query_world)) = [] \<and>
   trace (projr (QueryWrap_dtor 0 one_query_world)) = trace one_query_world \<and>
   fst (projr (FromCallbackPointer 1 one_query_world)) = Some 0 \<and>
   wraps (snd (projr (FromCallbackPointer 1 one_query_world))) 0 =
     Some \<lparr>wrap_class = QuerySingleWrap, response_data = None, callback_ptr = None\<rparr> \<and>
   cells (snd (projr (FromCallbackPointer 1 one_query_world))) 1 = None"
proof -
  have h1: "wraps one_query_world 0 =
     Some \<lparr>wrap_class = QuerySingleWrap, response_data = None, callback_ptr = Some 1\<rparr>"
    and h3: "cells one_query_world 1 = Some (Some 0)"
    by (simp_all add: one_query_world_eq)
  have h2: "callback_ptr \<lparr>wrap_class = QuerySingleWrap, response_data = None,
                          callback_ptr = Some 1\<rparr> = Some 1"
    by simp
  note T = callback_token_safety [OF h1 h2 h3, of ARES_SUCCESS "[1, 2, 3]" empty_hostent]
  from T obtain w1 where d: "QueryWrap_dtor 0 one_query_world = Inr w1"
    and c: "cells w1 1 = Some None"
    and b: "Callback_buf 1 ARES_SUCCESS [1, 2, 3] w1 = Inr (w1\<lparr>cells := (cells w1)(1 := None)\<rparr>)"
    by blast
  have w1: "w1 = one_query_world\<lparr>cells := [1 \<mapsto> None], wraps := Map.empty\<rparr>"
    using d by (simp add: QueryWrap_dtor_def one_query_world_eq)
  have e: "(cells w1)(1 := None) = Map.empty"
    by (simp add: w1)
  from T have f: "FromCallbackPointer 1 one_query_world =
     Inr (Some 0, one_query_world
            \<lparr>wraps := (wraps one_query_world)(0 \<mapsto>
                 \<lparr>wrap_class = QuerySingleWrap, response_data = None, callback_ptr = Some 1\<rparr>
                   \<lparr>callback_ptr := None\<rparr>),
              cells := (cells one_query_world)(1 := None)\<rparr>)"
    by blast
  have 1: "\<not> isl (QueryWrap_dtor 0 one_query_world) \<and>
   cells (projr (QueryWrap_dtor 0 one_query_world)) 1 = Some None \<and>
   Callback_buf 1 ARES_SUCCESS [1, 2, 3] (projr (QueryWrap_dtor 0 one_query_world)) =
     Inr ((projr (QueryWrap_dtor 0 one_query_world))\<lparr>cells := Map.empty\<rparr>) \<and>
   immediates (projr (QueryWrap_dtor 0 one_query_world)) = [] \<and>
   trace (projr (QueryWrap_dtor 0 one_query_world)) = trace one_query_world"
    unfolding d using c b e by (simp add: w1) (simp add: one_query_world_eq)
  have 2: "fst (projr (FromCallbackPointer 1 one_query_world)) = Some 0 \<and>
   wraps (snd (projr (FromCallbackPointer 1 one_query_world))) 0 =
     Some \<lparr>wrap_class = QuerySingleWrap, response_data = None, callback_ptr = None\<rparr> \<and>
   cells (snd (projr (FromCallbackPointer 1 one_query_world))) 1 = None"
    unfolding f by simp
  from h1 h3 1 2 show ?thesis by blast
qed

lemma int32_id: "- 2147483648 \<le> x \<Longrightarrow> x < 2147483648 \<Longrightarrow> int32 x = x"
  by (simp add: int32_def)

lemma ModifyActivityQueryCount_ok:
  "0 \<le> active_query_count (channel w) + n \<Longrightarrow> active_query_count (channel w) + n < 2147483648 \<Longrightarrow>
   ModifyActivityQueryCount n w =
     Inr (w\<lparr>channel := (channel w)\<lparr>active_query_count := active_query_count (channel w) + n\<rparr>\<rparr>)"
  by (simp add: ModifyActivityQueryCount_def Let_def int32_id)

lemma QueueResponseCallback_live:
  assumes "0 < active_query_count (channel w)" and "active_query_count (channel w) \<le> 2147483648"
  shows "QueueResponseCallback wid status w =
     Inr (w\<lparr>immediates := immediates w @ [wid],
            channel := (channel w)\<lparr>query_last_ok := (status \<noteq> ARES_ECONNREFUSED),
                                   active_query_count := active_query_count (channel w) - 1\<rparr>\<rparr>)"
proof -
  let ?w2 = "set_query_last_ok (status \<noteq> ARES_ECONNREFUSED)
               (w\<lparr>immediates := immediates w @ [wid]\<rparr>)"
  have c: "active_query_count (channel ?w2) = active_query_count (channel w)"
    by (simp add: set_query_last_ok_def)
  have "ModifyActivityQueryCount (- 1) ?w2 =
     Inr (?w2\<lparr>channel := (channel ?w2)\<lparr>active_query_count :=
                  active_query_count (channel ?w2) + - 1\<rparr>\<rparr>)"
    using assms by (intro ModifyActivityQueryCount_ok) (simp_all add: c)
  then show ?thesis
    by (simp add: QueueResponseCallback_def Let_def set_query_last_ok_def)
qed










section \<open>The in-flight counter\<close>

lemma same_heap_inv: "same_heap w w' \<Longrightarrow> count_inv w \<Longrightarrow> count_inv w'"
  by (simp add: same_heap_def count_inv_def outstanding_def)

lemma outstanding_bounded:
  assumes "\<forall>p. next_addr w \<le> p \<longrightarrow> cells w p = None"
  shows "outstanding w \<subseteq> {..<next_addr w}"
proof
  fix p
  assume "p \<in> outstanding w"
  then obtain wid where "cells w p = Some (Some wid)"
    by (auto simp: outstanding_def)
  with assms have "\<not> next_addr w \<le> p"
    by auto
  then show "p \<in> {..<next_addr w}"
    by simp
qed

lemma outstanding_finite: "count_inv w \<Longrightarrow> finite (outstanding w)"
  by (meson count_inv_def outstanding_bounded finite_lessThan finite_subset)

lemma Setup_same_heap: "same_heap w (Setup lib_r init w)"
  by (simp add: Setup_def same_heap_def Let_def)

lemma CloseTimer_same_heap: "same_heap w (CloseTimer w)"
  by (simp add: CloseTimer_def same_heap_def split: option.splits)

lemma same_heap_trans: "same_heap a b \<Longrightarrow> same_heap b c \<Longrightarrow> same_heap a c"
  by (simp add: same_heap_def)

lemma EnsureServers_same_heap: "EnsureServers lib_r init w = Inr w' \<Longrightarrow> same_heap w w'"
proof -
  assume a: "EnsureServers lib_r init w = Inr w'"
  let ?w1 = "w\<lparr>trace := trace w @ [AresDestroy],
               channel := (channel w)\<lparr>cares_channel := None\<rparr>\<rparr>"
  have 1: "same_heap w ?w1" by (simp add: same_heap_def)
  have 2: "same_heap w (Setup lib_r init (CloseTimer ?w1))"
    by (rule same_heap_trans [OF 1 same_heap_trans [OF CloseTimer_same_heap Setup_same_heap]])
  have 3: "same_heap w (w\<lparr>channel := (channel w)\<lparr>is_servers_default := False\<rparr>\<rparr>)"
    by (simp add: same_heap_def)
  have 4: "same_heap w w" by (simp add: same_heap_def)
  from a show ?thesis
    unfolding EnsureServers_def using 2 3 4
    by (auto split: if_splits option.splits list.splits)
qed

lemma EnsureServers_error: "EnsureServers lib_r init w = Inl e \<Longrightarrow> e \<noteq> CHECK_GE_count"
  by (auto simp: EnsureServers_def CHECK_GE_count_def split: if_splits option.splits list.splits)

lemma AfterResponse_same_heap: "AfterResponse D wid w = Inr w' \<Longrightarrow> same_heap w w'"
  by (drule AfterResponse_adds) (auto simp: adds_trace_def same_heap_def)

lemma ParseError_error: "ParseError wid st w = Inl e \<Longrightarrow> e \<noteq> CHECK_GE_count"
  by (auto simp: ParseError_def CHECK_GE_count_def split: if_splits)

lemma ParseGeneralReply_error: "ParseGeneralReply D buf ty ret = Inl e \<Longrightarrow> e \<noteq> CHECK_GE_count"
  by (auto simp: ParseGeneralReply_def CHECK_GE_count_def Let_def
      split: if_splits prod.splits option.splits)

lemma QueryAnyWrap_Parse_error:
  "QueryAnyWrap_Parse D wid buf w = Inl e \<Longrightarrow> e \<noteq> CHECK_GE_count"
  unfolding QueryAnyWrap_Parse_def Let_def
  by (auto split: sum.splits prod.splits if_splits
      dest: ParseError_error ParseGeneralReply_error simp: CallOnComplete_def)
     (simp_all add: CHECK_GE_count_def)

lemma AfterResponse_error: "AfterResponse D wid w = Inl e \<Longrightarrow> e \<noteq> CHECK_GE_count"
  by (auto simp: AfterResponse_def QuerySingleWrap_Parse_def GetHostByAddrWrap_Parse_def
      CallOnComplete_def
      split: option.splits if_splits wrap_kind.splits prod.splits
      dest: ParseError_error QueryAnyWrap_Parse_error)
     (simp_all add: CHECK_GE_count_def)

lemma card_outstanding_insert:
  assumes "count_inv w" and "cells w' = (cells w)(p \<mapsto> Some wid)" and "next_addr w \<le> p"
  shows "int (card (outstanding w')) = active_query_count (channel w) + 1"
proof -
  have "cells w p = None"
    using assms by (simp add: count_inv_def)
  then have "p \<notin> outstanding w"
    by (simp add: outstanding_def)
  moreover have "outstanding w' = insert p (outstanding w)"
    using assms(2) by (auto simp: outstanding_def)
  ultimately show ?thesis
    using outstanding_finite [OF assms(1)] assms(1) by (simp add: count_inv_def)
qed

lemma card_outstanding_remove:
  assumes "count_inv w" and "cells w p = Some (Some wid)" and "cells w' = (cells w)(p := None)"
  shows "int (card (outstanding w')) = active_query_count (channel w) - 1"
proof -
  have in_p: "p \<in> outstanding w"
    using assms(2) by (simp add: outstanding_def)
  have fin: "finite (outstanding w)"
    by (rule outstanding_finite [OF assms(1)])
  have "outstanding w' = outstanding w - {p}"
    using assms(3) by (auto simp: outstanding_def)
  moreover have pos: "0 < card (outstanding w)"
    using in_p fin by (auto simp: card_gt_0_iff)
  ultimately show "int (card (outstanding w')) = active_query_count (channel w) - 1"
    using in_p fin assms(1) by (simp add: count_inv_def Suc_leI)
qed

lemma count_inv_pos:
  assumes "count_inv w" and "cells w p = Some (Some wid)"
  shows "0 < active_query_count (channel w)"
proof -
  have "p \<in> outstanding w"
    using assms(2) by (simp add: outstanding_def)
  then have "0 < card (outstanding w)"
    using outstanding_finite [OF assms(1)] by (auto simp: card_gt_0_iff)
  with assms(1) show ?thesis
    by (simp add: count_inv_def)
qed

lemma count_inv_nonneg: "count_inv w \<Longrightarrow> 0 \<le> active_query_count (channel w)"
  by (simp add: count_inv_def)

lemma count_inv_max: "count_inv w \<Longrightarrow> active_query_count (channel w) \<le> 2147483647"
  by (simp add: count_inv_def)

lemma count_inv_no_null: "count_inv w \<Longrightarrow> cells w p \<noteq> Some None"
  by (simp add: count_inv_def)

lemma capture_inv:
  assumes inv: "count_inv w" and cell: "cells w p = Some (Some wid)"
    and c': "cells w' = (cells w)(p := None)"
    and w': "\<forall>i. i \<noteq> wid \<longrightarrow> wraps w' i = wraps w i"
    and q': "\<forall>q. wraps w' wid = Some q \<longrightarrow> callback_ptr q = None"
    and i': "immediates w' = immediates w @ [wid]"
    and n': "next_addr w' = next_addr w"
    and a': "active_query_count (channel w') = active_query_count (channel w) - 1"
  shows "count_inv w'"
proof -
  have c: "int (card (outstanding w')) = active_query_count (channel w) - 1"
    by (rule card_outstanding_remove [OF inv cell c'])
  have lt: "wid < next_addr w"
    using inv cell by (auto simp: count_inv_def)
  show ?thesis
    unfolding count_inv_def
  proof (intro conjI)
    show "\<forall>pa\<ge>next_addr w'. cells w' pa = None"
      using inv by (simp add: count_inv_def c' n')
    show "\<forall>pa wida. cells w' pa = Some (Some wida) \<longrightarrow> wida < next_addr w'"
      using inv by (auto simp: count_inv_def c' n' split: if_splits)
    show "\<forall>pa. cells w' pa \<noteq> Some None"
      using inv by (simp add: count_inv_def c')
    show "\<forall>i\<in>set (immediates w').
       i < next_addr w' \<and> (\<forall>q. wraps w' i = Some q \<longrightarrow> callback_ptr q = None)"
    proof (intro ballI conjI allI impI)
      fix i q
      assume i: "i \<in> set (immediates w')"
      show "i < next_addr w'"
        using i inv lt by (auto simp: count_inv_def i' n')
      assume wq: "wraps w' i = Some q"
      show "callback_ptr q = None"
      proof (cases "i = wid")
        case True
        with wq q' show ?thesis by simp
      next
        case False
        with i have "i \<in> set (immediates w)" by (simp add: i')
        moreover from False wq w' have "wraps w i = Some q" by simp
        ultimately show ?thesis
          using inv by (auto simp: count_inv_def)
      qed
    qed
    show "active_query_count (channel w') = int (card (outstanding w'))"
      using c a' by simp
    show "active_query_count (channel w') \<le> 2147483647"
      using count_inv_max [OF inv] a' by simp
  qed
qed

text \<open>A completion callback that returns has taken a live token away and one off the
  counter: the invariant leaves no other token for it to find.\<close>

lemma Callback_buf_effect:
  assumes inv: "count_inv w"
  shows "Callback_buf p status answer w \<noteq> Inl CHECK_GE_count"
    and "Callback_buf p status answer w = Inr w' \<Longrightarrow>
           count_inv w' \<and>
           active_query_count (channel w') = active_query_count (channel w) - 1"
proof -
  consider (freed) "cells w p = None" | (live) wid where "cells w p = Some (Some wid)"
    using count_inv_no_null [OF inv, of p] by (cases "cells w p") auto
  then have "Callback_buf p status answer w \<noteq> Inl CHECK_GE_count \<and>
             (Callback_buf p status answer w = Inr w' \<longrightarrow>
                count_inv w' \<and>
                active_query_count (channel w') = active_query_count (channel w) - 1)"
  proof cases
    case freed
    then show ?thesis
      by (simp add: Callback_buf_def FromCallbackPointer_def CHECK_GE_count_def)
  next
    case live
    show ?thesis
    proof (cases "wraps w wid")
      case None
      with live show ?thesis
        by (simp add: Callback_buf_def FromCallbackPointer_def CHECK_GE_count_def)
    next
      case (Some q)
      have pos: "0 < active_query_count (channel w)"
        by (rule count_inv_pos [OF inv live])
      have mx: "active_query_count (channel w) \<le> 2147483648"
        using count_inv_max [OF inv] by simp
      have "count_inv w'" if "Callback_buf p status answer w = Inr w'"
        using that live Some pos mx
        by (intro capture_inv [OF inv live, where w' = w'])
           (auto simp: Callback_buf_def FromCallbackPointer_def set_response_data_def
            QueueResponseCallback_live)
      moreover have "active_query_count (channel w') = active_query_count (channel w) - 1"
        if "Callback_buf p status answer w = Inr w'"
        using that live Some pos mx
        by (auto simp: Callback_buf_def FromCallbackPointer_def set_response_data_def
            QueueResponseCallback_live)
      moreover have "Callback_buf p status answer w \<noteq> Inl CHECK_GE_count"
        using live Some pos mx
        by (simp add: Callback_buf_def FromCallbackPointer_def set_response_data_def
            QueueResponseCallback_live)
      ultimately show ?thesis by blast
    qed
  qed
  then show "Callback_buf p status answer w \<noteq> Inl CHECK_GE_count"
    and "Callback_buf p status answer w = Inr w' \<Longrightarrow>
           count_inv w' \<and>
           active_query_count (channel w') = active_query_count (channel w) - 1"
    by auto
qed

lemma Callback_host_effect:
  assumes inv: "count_inv w"
  shows "Callback_host p status host w \<noteq> Inl CHECK_GE_count"
    and "Callback_host p status host w = Inr w' \<Longrightarrow>
           count_inv w' \<and>
           active_query_count (channel w') = active_query_count (channel w) - 1"
proof -
  consider (freed) "cells w p = None" | (live) wid where "cells w p = Some (Some wid)"
    using count_inv_no_null [OF inv, of p] by (cases "cells w p") auto
  then have "Callback_host p status host w \<noteq> Inl CHECK_GE_count \<and>
             (Callback_host p status host w = Inr w' \<longrightarrow>
                count_inv w' \<and>
                active_query_count (channel w') = active_query_count (channel w) - 1)"
  proof cases
    case freed
    then show ?thesis
      by (simp add: Callback_host_def FromCallbackPointer_def CHECK_GE_count_def)
  next
    case live
    show ?thesis
    proof (cases "wraps w wid")
      case None
      with live show ?thesis
        by (simp add: Callback_host_def FromCallbackPointer_def CHECK_GE_count_def)
    next
      case (Some q)
      have pos: "0 < active_query_count (channel w)"
        by (rule count_inv_pos [OF inv live])
      have mx: "active_query_count (channel w) \<le> 2147483648"
        using count_inv_max [OF inv] by simp
      have "count_inv w'" if "Callback_host p status host w = Inr w'"
        using that live Some pos mx
        by (intro capture_inv [OF inv live, where w' = w'])
           (auto simp: Callback_host_def FromCallbackPointer_def set_response_data_def
            QueueResponseCallback_live cares_wrap_hostent_cpy_def
            split: if_splits option.splits)
      moreover have "active_query_count (channel w') = active_query_count (channel w) - 1"
        if "Callback_host p status host w = Inr w'"
        using that live Some pos mx
        by (auto simp: Callback_host_def FromCallbackPointer_def set_response_data_def
            QueueResponseCallback_live cares_wrap_hostent_cpy_def
            split: if_splits option.splits)
      moreover have "Callback_host p status host w \<noteq> Inl CHECK_GE_count"
        using live Some pos mx
        by (auto simp: Callback_host_def FromCallbackPointer_def set_response_data_def
            QueueResponseCallback_live cares_wrap_hostent_cpy_def CHECK_GE_count_def
            split: option.splits)
      ultimately show ?thesis by blast
    qed
  qed
  then show "Callback_host p status host w \<noteq> Inl CHECK_GE_count"
    and "Callback_host p status host w = Inr w' \<Longrightarrow>
           count_inv w' \<and>
           active_query_count (channel w') = active_query_count (channel w) - 1"
    by auto
qed

lemma QueryWrap_dtor_error: "QueryWrap_dtor wid w = Inl e \<Longrightarrow> e \<noteq> CHECK_GE_count"
  by (auto simp: QueryWrap_dtor_def CHECK_GE_count_def split: option.splits)

text \<open>A delivery leaves the counter alone.\<close>

lemma run_immediate_effect:
  assumes inv: "count_inv w"
  shows "run_immediate D w \<noteq> Inl CHECK_GE_count"
    and "run_immediate D w = Inr w' \<Longrightarrow>
           count_inv w' \<and> active_query_count (channel w') = active_query_count (channel w)"
proof -
  show "run_immediate D w \<noteq> Inl CHECK_GE_count"
    by (auto simp: run_immediate_def split: list.splits sum.splits
        dest: AfterResponse_error QueryWrap_dtor_error)
  show "count_inv w' \<and> active_query_count (channel w') = active_query_count (channel w)"
    if r: "run_immediate D w = Inr w'"
  proof (cases "immediates w")
    case Nil
    with r inv show ?thesis by (simp add: run_immediate_def)
  next
    case (Cons wid rest)
    with r obtain w1 where ar: "AfterResponse D wid (w\<lparr>immediates := rest\<rparr>) = Inr w1"
      and dt: "QueryWrap_dtor wid w1 = Inr w'"
      by (auto simp: run_immediate_def split: sum.splits)
    from AfterResponse_same_heap [OF ar]
    have sh: "cells w1 = cells w" "wraps w1 = wraps w" "immediates w1 = rest"
      "next_addr w1 = next_addr w"
      "active_query_count (channel w1) = active_query_count (channel w)"
      by (simp_all add: same_heap_def)
    from dt obtain q where q: "wraps w wid = Some q"
      by (auto simp: QueryWrap_dtor_def sh split: option.splits)
    with inv Cons have "callback_ptr q = None"
      by (auto simp: count_inv_def)
    with dt q have w': "w' = w1\<lparr>wraps := (wraps w)(wid := None)\<rparr>"
      by (simp add: QueryWrap_dtor_def sh)
    show ?thesis
      using inv Cons
      by (auto simp: count_inv_def w' sh outstanding_def)
  qed
qed

lemma MakeCallbackPointer_fresh:
  assumes "wraps w wid = Some q" and "callback_ptr q = None"
  shows "MakeCallbackPointer wid w =
    Inr (next_addr w,
         w\<lparr>cells := (cells w)(next_addr w \<mapsto> Some wid),
           wraps := (wraps w)(wid \<mapsto> q\<lparr>callback_ptr := Some (next_addr w)\<rparr>),
           next_addr := Suc (next_addr w)\<rparr>)"
  using assms by (simp add: MakeCallbackPointer_def Let_def)

lemma engine_send_error: "engine_send wid w = Inl e \<Longrightarrow> e \<noteq> CHECK_GE_count"
  by (auto simp: engine_send_def MakeCallbackPointer_def CHECK_GE_count_def Let_def
      split: option.splits if_splits sum.splits)

lemma accept_inv:
  assumes inv: "count_inv w"
    and lt: "active_query_count (channel w) < 2147483647"
    and c': "cells w' = (cells w)(Suc (next_addr w) \<mapsto> Some (next_addr w))"
    and n': "next_addr w' = Suc (Suc (next_addr w))"
    and i': "immediates w' = immediates w"
    and w': "\<forall>i. i \<noteq> next_addr w \<longrightarrow> wraps w' i = wraps w i"
    and a': "active_query_count (channel w') = active_query_count (channel w) + 1"
  shows "count_inv w'"
proof -
  have c: "int (card (outstanding w')) = active_query_count (channel w) + 1"
    by (rule card_outstanding_insert [OF inv c']) simp
  show ?thesis
    unfolding count_inv_def
  proof (intro conjI)
    show "\<forall>p\<ge>next_addr w'. cells w' p = None"
      using inv by (simp add: count_inv_def c' n')
    show "\<forall>p wid. cells w' p = Some (Some wid) \<longrightarrow> wid < next_addr w'"
      using inv by (auto simp: count_inv_def c' n' less_Suc_eq split: if_splits)
    show "\<forall>p. cells w' p \<noteq> Some None"
      using inv by (simp add: count_inv_def c')
    show "\<forall>i\<in>set (immediates w').
       i < next_addr w' \<and> (\<forall>q. wraps w' i = Some q \<longrightarrow> callback_ptr q = None)"
      using inv w' by (auto simp: count_inv_def i' n' less_Suc_eq)
    show "active_query_count (channel w') = int (card (outstanding w'))"
      using c a' by simp
    show "active_query_count (channel w') \<le> 2147483647"
      using lt a' by simp
  qed
qed

lemma reject_inv:
  assumes inv: "count_inv w"
    and c': "cells w' = cells w"
    and n': "next_addr w' = Suc (next_addr w)"
    and i': "immediates w' = immediates w"
    and w': "\<forall>i. i \<noteq> next_addr w \<longrightarrow> wraps w' i = wraps w i"
    and a': "active_query_count (channel w') = active_query_count (channel w)"
  shows "count_inv w'"
  unfolding count_inv_def
proof (intro conjI)
  show "\<forall>p\<ge>next_addr w'. cells w' p = None"
    using inv by (simp add: count_inv_def c' n')
  show "\<forall>p wid. cells w' p = Some (Some wid) \<longrightarrow> wid < next_addr w'"
    using inv by (auto simp: count_inv_def c' n' less_Suc_eq)
  show "\<forall>p. cells w' p \<noteq> Some None"
    using inv by (simp add: count_inv_def c')
  show "\<forall>i\<in>set (immediates w').
     i < next_addr w' \<and> (\<forall>q. wraps w' i = Some q \<longrightarrow> callback_ptr q = None)"
    using inv w' by (auto simp: count_inv_def i' n' less_Suc_eq)
  show "active_query_count (channel w') = int (card (outstanding w'))"
    using inv by (simp add: count_inv_def a' outstanding_def c')
  show "active_query_count (channel w') \<le> 2147483647"
    using inv by (simp add: count_inv_def a')
qed

lemma engine_send_effect:
  assumes q: "wraps w wid = Some q" "callback_ptr q = None"
    and r: "engine_send wid w = Inr w'"
  shows "cells w' = (cells w)(next_addr w \<mapsto> Some wid) \<and>
         next_addr w' = Suc (next_addr w) \<and>
         immediates w' = immediates w \<and>
         active_query_count (channel w') = active_query_count (channel w) \<and>
         (\<forall>i. i \<noteq> wid \<longrightarrow> wraps w' i = wraps w i)"
  using r q
  by (auto simp: engine_send_def MakeCallbackPointer_fresh split: option.splits)

lemma Send_effect:
  assumes q: "wraps w wid = Some q" "callback_ptr q = None"
    and r: "Send E k wid name w = Inr (err, w')"
  shows "(err \<noteq> 0 \<longrightarrow> w' = w) \<and>
         (err = 0 \<longrightarrow>
            cells w' = (cells w)(next_addr w \<mapsto> Some wid) \<and>
            next_addr w' = Suc (next_addr w) \<and>
            immediates w' = immediates w \<and>
            active_query_count (channel w') = active_query_count (channel w) \<and>
            (\<forall>i. i \<noteq> wid \<longrightarrow> wraps w' i = wraps w i))"
proof (cases "k = GetHostByAddrWrap")
  case True
  with r q show ?thesis
    by (auto simp: Send_def UV_EINVAL_def split: if_splits sum.splits
        dest!: engine_send_effect [OF q])
next
  case False
  with r obtain w1 where es: "EnsureServers (env_library_init E) (env_init_options E) w = Inr w1"
    and se: "engine_send wid w1 = Inr w'" and err: "err = 0"
    by (auto simp: Send_def split: sum.splits)
  from EnsureServers_same_heap [OF es]
  have sh: "cells w1 = cells w" "wraps w1 = wraps w" "immediates w1 = immediates w"
    "next_addr w1 = next_addr w"
    "active_query_count (channel w1) = active_query_count (channel w)"
    by (simp_all add: same_heap_def)
  from q have "wraps w1 wid = Some q" by (simp add: sh)
  from engine_send_effect [OF this q(2) se] err show ?thesis
    by (simp add: sh)
qed

lemma Send_error: "Send E k wid name w = Inl e \<Longrightarrow> e \<noteq> CHECK_GE_count"
  by (auto simp: Send_def split: if_splits sum.splits
      dest: engine_send_error EnsureServers_error)

text \<open>\<open>Send\<close> returns 0 exactly for the dispatches counted as accepted.\<close>

lemma Send_status:
  "Send E k wid name w = Inr (err, w') \<Longrightarrow> (err = 0) = accepted (Dispatch E k name)"
  by (auto simp: Send_def UV_EINVAL_def split: if_splits sum.splits)

text \<open>A dispatch made below \<open>INT_MAX\<close> adds one to the counter before \<open>Send\<close>; when \<open>Send\<close>
  rejects the query it takes the one off again before it returns.\<close>

lemma Query_effect:
  assumes inv: "count_inv w" and lt: "active_query_count (channel w) < 2147483647"
  shows "Query E k name w \<noteq> Inl CHECK_GE_count"
    and "Query E k name w = Inr (err, w') \<Longrightarrow>
           count_inv w' \<and> (err = 0) = accepted (Dispatch E k name) \<and>
           active_query_count (channel w') =
             active_query_count (channel w) + (if err = 0 then 1 else 0)"
proof -
  let ?wid = "next_addr w"
  let ?q = "\<lparr>wrap_class = k, response_data = None, callback_ptr = None\<rparr>"
  let ?w0 = "w\<lparr>wraps := (wraps w)(?wid \<mapsto> ?q), next_addr := Suc ?wid\<rparr>"
  let ?w1 = "?w0\<lparr>channel := (channel ?w0)\<lparr>active_query_count :=
                 active_query_count (channel ?w0) + 1\<rparr>\<rparr>"
  let ?w3 = "?w1\<lparr>channel := (channel ?w1)\<lparr>active_query_count :=
                 active_query_count (channel ?w1) + - 1\<rparr>\<rparr>"
  have nn: "0 \<le> active_query_count (channel w)"
    by (rule count_inv_nonneg [OF inv])
  have m1: "ModifyActivityQueryCount 1 ?w0 = Inr ?w1"
    using nn lt by (intro ModifyActivityQueryCount_ok) simp_all
  have m2: "ModifyActivityQueryCount (- 1) ?w1 = Inr ?w3"
    using nn lt by (intro ModifyActivityQueryCount_ok) simp_all
  have dt: "QueryWrap_dtor ?wid ?w3 = Inr (?w3\<lparr>wraps := (wraps ?w3)(?wid := None)\<rparr>)"
    by (simp add: QueryWrap_dtor_def)
  have q1: "wraps ?w1 ?wid = Some ?q" "callback_ptr ?q = None"
    by simp_all
  have Q: "Query E k name w =
     (case Send E k ?wid name ?w1 of
        Inl e \<Rightarrow> Inl e
      | Inr (err, w2) \<Rightarrow>
          if err \<noteq> 0 then
            (case ModifyActivityQueryCount (- 1) w2 of
               Inl e \<Rightarrow> Inl e
             | Inr w3 \<Rightarrow>
                 (case QueryWrap_dtor ?wid w3 of Inl e \<Rightarrow> Inl e | Inr w4 \<Rightarrow> Inr (err, w4)))
          else Inr (err, w2))"
    unfolding Query_def Let_def m1 by simp
  have rej: "Query E k name w = Inr (err2, ?w3\<lparr>wraps := (wraps ?w3)(?wid := None)\<rparr>)"
    if s: "Send E k ?wid name ?w1 = Inr (err2, ?w1)" and ne: "err2 \<noteq> 0" for err2
    by (simp only: Q s sum.case prod.case ne not_False_eq_True if_True m2 dt)
  show "Query E k name w \<noteq> Inl CHECK_GE_count"
  proof (cases "Send E k ?wid name ?w1")
    case (Inl e)
    with Send_error [OF Inl] show ?thesis by (simp add: Q)
  next
    case (Inr r)
    obtain err2 w2 where r: "r = (err2, w2)" by (cases r)
    show ?thesis
    proof (cases "err2 = 0")
      case True
      with Inr r show ?thesis by (simp add: Q)
    next
      case False
      with Send_effect [OF q1 Inr [unfolded r]] have "w2 = ?w1" by simp
      with Inr r have "Send E k ?wid name ?w1 = Inr (err2, ?w1)" by simp
      from rej [OF this False] show ?thesis by simp
    qed
  qed
  show "count_inv w' \<and> (err = 0) = accepted (Dispatch E k name) \<and>
        active_query_count (channel w') =
          active_query_count (channel w) + (if err = 0 then 1 else 0)"
    if res: "Query E k name w = Inr (err, w')"
  proof (cases "Send E k ?wid name ?w1")
    case (Inl e)
    with res show ?thesis by (simp add: Q)
  next
    case (Inr r)
    obtain err2 w2 where r: "r = (err2, w2)" by (cases r)
    note eff = Send_effect [OF q1 Inr [unfolded r]]
    note st = Send_status [OF Inr [unfolded r]]
    show ?thesis
    proof (cases "err2 = 0")
      case True
      with res Inr r have e: "w' = w2" "err = err2" by (simp_all add: Q)
      from eff True e have "count_inv w'"
        by (intro accept_inv [OF inv lt]) auto
      moreover from eff True e
      have "active_query_count (channel w') = active_query_count (channel w) + 1"
        by simp
      ultimately show ?thesis
        using st True e by simp
    next
      case False
      with eff have "w2 = ?w1" by simp
      with Inr r have "Send E k ?wid name ?w1 = Inr (err2, ?w1)" by simp
      from rej [OF this False] res
      have e: "w' = ?w3\<lparr>wraps := (wraps ?w3)(?wid := None)\<rparr>" "err = err2"
        by simp_all
      have "count_inv w'"
        unfolding e by (intro reject_inv [OF inv]) auto
      moreover have "active_query_count (channel w') = active_query_count (channel w)"
        unfolding e by simp
      ultimately show ?thesis
        using st False e(2) by simp
    qed
  qed
qed

text \<open>Each step moves the counter together with the tokens the engine holds: an accepted
  dispatch adds one, a rejected dispatch and a delivery leave it, a completion takes one
  off. No step fails the \<open>CHECK\<close> of \<open>ModifyActivityQueryCount\<close>.\<close>

lemma do_step_effect:
  assumes inv: "count_inv w"
    and lt: "is_dispatch s \<longrightarrow> active_query_count (channel w) < 2147483647"
  shows "do_step s w \<noteq> Inl CHECK_GE_count"
    and "do_step s w = Inr w' \<Longrightarrow>
           count_inv w' \<and>
           active_query_count (channel w') =
             active_query_count (channel w) + (if accepted s then 1 else 0)
               - (if completion s then 1 else 0)"
proof -
  have "do_step s w \<noteq> Inl CHECK_GE_count \<and>
        (do_step s w = Inr w' \<longrightarrow>
           count_inv w' \<and>
           active_query_count (channel w') =
             active_query_count (channel w) + (if accepted s then 1 else 0)
               - (if completion s then 1 else 0))"
  proof (cases s)
    case (Dispatch E k name)
    with lt have b: "active_query_count (channel w) < 2147483647"
      by simp
    have 1: "do_step s w \<noteq> Inl CHECK_GE_count"
      using Query_effect(1) [OF inv b, of E k name]
      by (auto simp: Dispatch split: sum.splits)
    have 2: "count_inv w' \<and>
           active_query_count (channel w') =
             active_query_count (channel w) + (if accepted s then 1 else 0)
               - (if completion s then 1 else 0)"
      if r: "do_step s w = Inr w'"
    proof -
      from r obtain err where "Query E k name w = Inr (err, w')"
        by (auto simp: Dispatch split: sum.splits)
      from Query_effect(2) [OF inv b this] show ?thesis
        by (auto simp: Dispatch)
    qed
    from 1 2 show ?thesis by blast
  next
    case (Complete p status answer)
    with Callback_buf_effect(1) [OF inv, of p status answer] Callback_buf_effect(2) [OF inv, of p status answer w']
    show ?thesis
      by simp
  next
    case (CompleteHost p status host)
    with Callback_host_effect(1) [OF inv, of p status host] Callback_host_effect(2) [OF inv, of p status host w']
    show ?thesis
      by simp
  next
    case (Immediate D)
    with run_immediate_effect(1) [OF inv, of D] run_immediate_effect(2) [OF inv, of D w']
    show ?thesis
      by simp
  qed
  then show "do_step s w \<noteq> Inl CHECK_GE_count"
    and "do_step s w = Inr w' \<Longrightarrow>
           count_inv w' \<and>
           active_query_count (channel w') =
             active_query_count (channel w) + (if accepted s then 1 else 0)
               - (if completion s then 1 else 0)"
    by auto
qed

lemma in_flight_Cons:
  "in_flight (s # ss) =
     (if accepted s then 1 else 0) - (if completion s then 1 else 0) + in_flight ss"
  by (simp add: in_flight_def)

lemma run_effect:
  assumes "count_inv w"
    and "\<forall>n<length ss. is_dispatch (ss ! n) \<longrightarrow>
           active_query_count (channel w) + in_flight (take n ss) < 2147483647"
  shows "run ss w \<noteq> Inl CHECK_GE_count \<and>
         (\<forall>w'. run ss w = Inr w' \<longrightarrow>
            count_inv w' \<and>
            active_query_count (channel w') = active_query_count (channel w) + in_flight ss)"
  using assms
proof (induction ss arbitrary: w)
  case Nil
  then show ?case by (simp add: in_flight_def)
next
  case (Cons s ss)
  from Cons.prems(2) have lt: "is_dispatch s \<longrightarrow> active_query_count (channel w) < 2147483647"
    by (auto simp: in_flight_def)
  show ?case
  proof (cases "do_step s w")
    case (Inl e)
    with do_step_effect(1) [OF Cons.prems(1) lt] show ?thesis by auto
  next
    case (Inr w1)
    from do_step_effect(2) [OF Cons.prems(1) lt Inr]
    have inv1: "count_inv w1"
      and c1: "active_query_count (channel w1) =
                 active_query_count (channel w) + (if accepted s then 1 else 0)
                   - (if completion s then 1 else 0)"
      by simp_all
    have b1: "\<forall>n<length ss. is_dispatch (ss ! n) \<longrightarrow>
                active_query_count (channel w1) + in_flight (take n ss) < 2147483647"
    proof (intro allI impI)
      fix n
      assume n: "n < length ss" and d: "is_dispatch (ss ! n)"
      from Cons.prems(2) [rule_format, of "Suc n"] n d
      have "active_query_count (channel w) + in_flight (s # take n ss) < 2147483647"
        by simp
      then show "active_query_count (channel w1) + in_flight (take n ss) < 2147483647"
        by (simp add: in_flight_Cons c1)
    qed
    from Cons.IH [OF inv1 b1] Inr show ?thesis
      by (simp add: in_flight_Cons c1)
  qed
qed

lemma run_take: "run ss w = Inr w' \<Longrightarrow> \<exists>wn. run (take n ss) w = Inr wn"
proof (induction ss arbitrary: w n)
  case Nil
  then show ?case by simp
next
  case (Cons s ss)
  show ?case
  proof (cases n)
    case 0
    then show ?thesis by simp
  next
    case (Suc m)
    from Cons.prems obtain w1 where 1: "do_step s w = Inr w1" and 2: "run ss w1 = Inr w'"
      by (auto split: sum.splits)
    from Cons.IH [OF 2, of m] 1 Suc show ?thesis
      by simp
  qed
qed

lemma in_flight_bounded_take: "in_flight_bounded ss \<Longrightarrow> in_flight_bounded (take n ss)"
  by (auto simp: in_flight_bounded_def min_def)

lemma count_inv_new: "count_inv (ChannelWrap_new tmo lib_r init)"
proof -
  have "count_inv (world_init tmo)"
    by (simp add: count_inv_def world_init_def ChannelWrap_init_def outstanding_def)
  with Setup_same_heap show ?thesis
    unfolding ChannelWrap_new_def by (rule same_heap_inv)
qed

lemma counter_new: "active_query_count (channel (ChannelWrap_new tmo lib_r init)) = 0"
proof -
  have "same_heap (world_init tmo) (ChannelWrap_new tmo lib_r init)"
    unfolding ChannelWrap_new_def by (rule Setup_same_heap)
  then show ?thesis
    by (simp add: same_heap_def world_init_def ChannelWrap_init_def)
qed

lemma run_counter:
  assumes "in_flight_bounded ss"
  shows "run ss (ChannelWrap_new tmo lib_r init) \<noteq> Inl CHECK_GE_count \<and>
         (\<forall>w'. run ss (ChannelWrap_new tmo lib_r init) = Inr w' \<longrightarrow>
            count_inv w' \<and> active_query_count (channel w') = in_flight ss)"
  using run_effect [OF count_inv_new, of ss tmo lib_r init] assms
  by (simp add: counter_new in_flight_bounded_def)

text \<open>
  Claim C6, as amended. Take any interleaving of dispatches (accepted or rejected),
  completions (with any status, through either callback) and deliveries on a new channel
  in which every dispatch is made while fewer than \<open>INT_MAX\<close> queries are in flight. The
  \<open>CHECK\<close> of \<open>ModifyActivityQueryCount\<close> does not fail, and when the interleaving runs
  to its end
  \<^item> the counter is the number of accepted dispatches less the number of completions: each
    accepted dispatch has added one and each completion has taken one off, whatever its
    status, and a rejected dispatch has changed nothing;
  \<^item> the counter is the number of tokens the engine still holds;
  \<^item> the counter is 0 when there are as many completions as accepted dispatches;
  \<^item> every prefix of the interleaving ran to its end as well, and left the counter at the
    count of that prefix, which is not negative.

  Destroying a lifecycle object while the engine holds its token, as the teardown of the
  environment does, is not a step of an interleaving.
\<close>

theorem active_query_count_paired:
  assumes "in_flight_bounded steps"
  shows
   "run steps (ChannelWrap_new tmo lib_r init) \<noteq> Inl CHECK_GE_count \<and>
    (\<forall>w. run steps (ChannelWrap_new tmo lib_r init) = Inr w \<longrightarrow>
       active_query_count (channel w) =
         int (length (filter accepted steps)) - int (length (filter completion steps)) \<and>
       active_query_count (channel w) = int (card (outstanding w)) \<and>
       (length (filter accepted steps) = length (filter completion steps) \<longrightarrow>
          active_query_count (channel w) = 0) \<and>
       (\<forall>n\<le>length steps. \<exists>wn.
          run (take n steps) (ChannelWrap_new tmo lib_r init) = Inr wn \<and>
          active_query_count (channel wn) = in_flight (take n steps) \<and>
          0 \<le> active_query_count (channel wn)))"
proof -
  let ?W = "ChannelWrap_new tmo lib_r init"
  note R = run_counter [OF assms, of tmo lib_r init]
  have 1: "run steps ?W \<noteq> Inl CHECK_GE_count"
    using R by simp
  have 2: "active_query_count (channel w) =
         int (length (filter accepted steps)) - int (length (filter completion steps)) \<and>
       active_query_count (channel w) = int (card (outstanding w)) \<and>
       (length (filter accepted steps) = length (filter completion steps) \<longrightarrow>
          active_query_count (channel w) = 0) \<and>
       (\<forall>n\<le>length steps. \<exists>wn.
          run (take n steps) ?W = Inr wn \<and>
          active_query_count (channel wn) = in_flight (take n steps) \<and>
          0 \<le> active_query_count (channel wn))"
    if r: "run steps ?W = Inr w" for w
  proof -
    from R r have inv: "count_inv w"
      and c: "active_query_count (channel w) = in_flight steps"
      by simp_all
    have a: "active_query_count (channel w) = int (card (outstanding w))"
      using inv by (simp add: count_inv_def)
    have d: "\<forall>n\<le>length steps. \<exists>wn.
          run (take n steps) ?W = Inr wn \<and>
          active_query_count (channel wn) = in_flight (take n steps) \<and>
          0 \<le> active_query_count (channel wn)"
    proof (intro allI impI)
      fix n
      from run_take [OF r, of n] obtain wn where rn: "run (take n steps) ?W = Inr wn"
        by blast
      from run_counter [OF in_flight_bounded_take [OF assms, of n], of tmo lib_r init] rn
      have "count_inv wn" and "active_query_count (channel wn) = in_flight (take n steps)"
        by simp_all
      with rn count_inv_nonneg [of wn]
      show "\<exists>wn. run (take n steps) ?W = Inr wn \<and>
          active_query_count (channel wn) = in_flight (take n steps) \<and>
          0 \<le> active_query_count (channel wn)"
        by blast
    qed
    from c a d show ?thesis
      by (simp add: in_flight_def)
  qed
  from 1 2 show ?thesis
    by blast
qed

text \<open>The counter is a C \<open>int\<close>: a channel with \<open>INT_MAX\<close> queries in flight cannot take
  another dispatch.\<close>

lemma run_append:
  "run (xs @ ys) w = (case run xs w of Inl e \<Rightarrow> Inl e | Inr w1 \<Rightarrow> run ys w1)"
  by (induction xs arbitrary: w) (auto split: sum.splits)

lemma dispatch_accepted:
  assumes inv: "count_inv w" and lt: "active_query_count (channel w) < 2147483647"
    and ok: "query_last_ok (channel w)" and ch: "cares_channel (channel w) = Some e"
  shows "\<exists>w'. do_step (Dispatch example_env QuerySingleWrap name) w = Inr w' \<and>
           count_inv w' \<and>
           active_query_count (channel w') = active_query_count (channel w) + 1 \<and>
           query_last_ok (channel w') \<and> cares_channel (channel w') = Some e"
proof -
  let ?wid = "next_addr w"
  let ?q = "\<lparr>wrap_class = QuerySingleWrap, response_data = None, callback_ptr = None\<rparr>"
  let ?w0 = "w\<lparr>wraps := (wraps w)(?wid \<mapsto> ?q), next_addr := Suc ?wid\<rparr>"
  let ?w1 = "?w0\<lparr>channel := (channel ?w0)\<lparr>active_query_count :=
                 active_query_count (channel ?w0) + 1\<rparr>\<rparr>"
  have m1: "ModifyActivityQueryCount 1 ?w0 = Inr ?w1"
    using count_inv_nonneg [OF inv] lt by (intro ModifyActivityQueryCount_ok) simp_all
  have "\<exists>w'. do_step (Dispatch example_env QuerySingleWrap name) w = Inr w' \<and>
           query_last_ok (channel w') \<and> cares_channel (channel w') = Some e"
    unfolding do_step.simps Query_def Let_def m1 using ok ch
    by (simp add: Send_def EnsureServers_def engine_send_def MakeCallbackPointer_def Let_def)
  then obtain w' where r: "do_step (Dispatch example_env QuerySingleWrap name) w = Inr w'"
    and k: "query_last_ok (channel w')" "cares_channel (channel w') = Some e"
    by blast
  have l: "is_dispatch (Dispatch example_env QuerySingleWrap name) \<longrightarrow>
           active_query_count (channel w) < 2147483647"
    using lt by simp
  from do_step_effect(2) [OF inv l r]
  have "count_inv w' \<and> active_query_count (channel w') = active_query_count (channel w) + 1"
    by simp
  with r k show ?thesis
    by blast
qed

lemma dispatch_flood_Suc:
  "dispatch_flood (Suc n) =
     dispatch_flood n @ [Dispatch example_env QuerySingleWrap ''example.org'']"
  by (simp add: dispatch_flood_def replicate_append_same)

lemma dispatch_flood_run:
  assumes "count_inv w" and "active_query_count (channel w) + int n \<le> 2147483647"
    and "query_last_ok (channel w)" and "cares_channel (channel w) = Some e"
  shows "\<exists>w'. run (dispatch_flood n) w = Inr w' \<and> count_inv w' \<and>
           active_query_count (channel w') = active_query_count (channel w) + int n \<and>
           query_last_ok (channel w') \<and> cares_channel (channel w') = Some e"
  using assms
proof (induction n arbitrary: w)
  case 0
  then show ?case by (simp add: dispatch_flood_def)
next
  case (Suc n)
  from Suc.prems(2) have lt: "active_query_count (channel w) < 2147483647"
    by simp
  from dispatch_accepted [OF Suc.prems(1) lt Suc.prems(3,4), of "''example.org''"]
  obtain w1 where 1: "do_step (Dispatch example_env QuerySingleWrap ''example.org'') w = Inr w1"
    and inv1: "count_inv w1"
    and c1: "active_query_count (channel w1) = active_query_count (channel w) + 1"
    and ok1: "query_last_ok (channel w1)" and ch1: "cares_channel (channel w1) = Some e"
    by blast
  from Suc.prems(2) c1 have b1: "active_query_count (channel w1) + int n \<le> 2147483647"
    by simp
  from Suc.IH [OF inv1 b1 ok1 ch1]
  obtain w' where "run (dispatch_flood n) w1 = Inr w'" and "count_inv w'"
    and "active_query_count (channel w') = active_query_count (channel w1) + int n"
    and "query_last_ok (channel w')" and "cares_channel (channel w') = Some e"
    by blast
  with 1 c1 show ?case
    by (simp add: dispatch_flood_def del: do_step.simps)
qed

text \<open>
  Claim C6 as stated fails: after 2147483647 dispatches on a new channel, none of them
  completed, the counter is \<open>INT_MAX\<close>, and the next dispatch fails the \<open>CHECK\<close> of
  \<open>ModifyActivityQueryCount\<close>: its increment does not fit the C \<open>int\<close>.
\<close>

theorem active_query_count_overflow_counterexample:
  "\<not> isl (run (dispatch_flood 2147483647) (channel_with_servers [public_server])) \<and>
   active_query_count
     (channel (projr (run (dispatch_flood 2147483647) (channel_with_servers [public_server])))) =
     2147483647 \<and>
   run (dispatch_flood 2147483648) (channel_with_servers [public_server]) = Inl CHECK_GE_count"
proof -
  let ?W = "channel_with_servers [public_server]"
  let ?d = "Dispatch example_env QuerySingleWrap ''example.org''"
  have W: "?W = ChannelWrap_new 0 ARES_SUCCESS (ARES_SUCCESS, \<lparr>servers = [public_server]\<rparr>)"
    by (simp add: channel_with_servers_def)
  have inv: "count_inv ?W"
    unfolding W by (rule count_inv_new)
  have c0: "active_query_count (channel ?W) = 0"
    unfolding W by (rule counter_new)
  have ok: "query_last_ok (channel ?W)"
    and ch: "cares_channel (channel ?W) = Some \<lparr>servers = [public_server]\<rparr>"
    by (simp_all add: eval_defs)
  have b: "active_query_count (channel ?W) + int 2147483647 \<le> 2147483647"
    by (simp add: c0)
  from dispatch_flood_run [OF inv b ok ch]
  obtain w' where r: "run (dispatch_flood 2147483647) ?W = Inr w'"
    and c: "active_query_count (channel w') = 2147483647"
    by (auto simp: c0)
  have s: "dispatch_flood 2147483648 = dispatch_flood (Suc 2147483647)"
    by simp
  have l: "do_step ?d w' = Inl CHECK_GE_count"
    using c by (simp add: Query_def Let_def ModifyActivityQueryCount_def int32_def)
  have "run (dispatch_flood 2147483648) ?W = Inl CHECK_GE_count"
    unfolding s dispatch_flood_Suc run_append r using l
    by (simp del: do_step.simps)
  with r c show ?thesis
    by simp
qed

theorem active_query_count_paired_witness:
  "in_flight_bounded example_steps \<and>
   length (filter accepted example_steps) = 2 \<and>
   length (filter completion example_steps) = 2 \<and>
   \<not> isl (run example_steps (channel_with_servers [public_server])) \<and>
   active_query_count
     (channel (projr (run example_steps (channel_with_servers [public_server])))) = 0 \<and>
   card (outstanding (projr (run example_steps (channel_with_servers [public_server])))) = 0 \<and>
   \<not> isl (run (take 3 example_steps) (channel_with_servers [public_server])) \<and>
   active_query_count
     (channel (projr (run (take 3 example_steps) (channel_with_servers [public_server])))) = 2 \<and>
   \<not> isl (run (take 4 example_steps) (channel_with_servers [public_server])) \<and>
   active_query_count
     (channel (projr (run (take 4 example_steps) (channel_with_servers [public_server])))) = 1"
proof -
  let ?W = "channel_with_servers [public_server]"
  have W: "?W = ChannelWrap_new 0 ARES_SUCCESS (ARES_SUCCESS, \<lparr>servers = [public_server]\<rparr>)"
    by (simp add: channel_with_servers_def)
  have h: "in_flight_bounded example_steps"
    unfolding in_flight_bounded_def
  proof
    fix n
    assume "n \<in> {..<length example_steps}"
    then have "n \<in> {0, 1, 2, 3, 4, 5, 6}"
      by (auto simp: example_steps_def)
    then show "is_dispatch (example_steps ! n) \<longrightarrow>
        in_flight (take n example_steps) < 2147483647"
      by (auto simp: in_flight_def example_steps_def)
  qed
  have n: "length (filter accepted example_steps) = 2"
    "length (filter completion example_steps) = 2"
    by (simp_all add: example_steps_def example_env_def AF_INET_def AF_INET6_def)
  have f: "in_flight (take 3 example_steps) = 2" "in_flight (take 4 example_steps) = 1"
    by (simp_all add: in_flight_def example_steps_def example_env_def AF_INET_def AF_INET6_def)
  have l: "3 \<le> length example_steps" "4 \<le> length example_steps"
    by (simp_all add: example_steps_def)
  have r: "\<not> isl (run example_steps ?W)"
    by code_simp
  then have R: "run example_steps ?W = Inr (projr (run example_steps ?W))"
    by (cases "run example_steps ?W") simp_all
  note T = active_query_count_paired [OF h, of 0 ARES_SUCCESS
      "(ARES_SUCCESS, \<lparr>servers = [public_server]\<rparr>)", folded W]
  note U = T [THEN conjunct2, THEN spec, THEN mp, OF R]
  from U [THEN conjunct1]
  have a: "active_query_count (channel (projr (run example_steps ?W))) = 0"
    by (simp add: n)
  from U [THEN conjunct2, THEN conjunct1] a
  have b: "card (outstanding (projr (run example_steps ?W))) = 0"
    by simp
  note P = U [THEN conjunct2, THEN conjunct2, THEN conjunct2]
  from P [THEN spec, THEN mp, OF l(1)]
  have p3: "\<not> isl (run (take 3 example_steps) ?W) \<and>
      active_query_count (channel (projr (run (take 3 example_steps) ?W))) = 2"
    by (auto simp: f)
  from P [THEN spec, THEN mp, OF l(2)]
  have p4: "\<not> isl (run (take 4 example_steps) ?W) \<and>
      active_query_count (channel (projr (run (take 4 example_steps) ?W))) = 1"
    by (auto simp: f)
  from h n r a b p3 p4 show ?thesis
    by blast
qed

section \<open>Properties of the compound query\<close>

text \<open>
  Claim C1, at the inputs where the code departs from it. When the SRV pass reports a
  status other than success and \<open>ENODATA\<close> (here \<open>EBADRESP\<close>, the passes before it
  reporting \<open>ENODATA\<close>), \<open>QueryAnyWrap::Parse\<close> returns without calling \<open>ParseError\<close>: the
  sequence is aborted but no status reaches the caller, whose completion hook is never
  called. When the PTR pass reports such a status, it is ignored: the remaining passes run
  and the query completes with success.
\<close>

theorem QueryAny_srv_and_ptr_failures:
  "QueryAnyWrap_Parse decoders_srv_bad wid buf w = Inr w \<and>
   QueryAnyWrap_Parse decoders_ptr_bad wid buf w =
     Inr (w\<lparr>trace := trace w @ [MakeCallback wid [JsInt 0, JsArr []]]\<rparr>)"
  by (simp add: QueryAnyWrap_Parse_def ParseGeneralReply_def ParseRecordsReply_def
      decoders_srv_bad_def decoders_ptr_bad_def decoders_nodata_def bad_status_def
      wrap_from_def CallOnComplete_def ParseError_def
      ns_t_a_def ns_t_ns_def ns_t_cname_def ns_t_ptr_def ns_t_aaaa_def ns_t_cname_or_a_def
      ares_codes Let_def)

theorem QueryAny_srv_and_ptr_failures_witness:
  "QueryAnyWrap_Parse decoders_srv_bad 0 [] one_query_world = Inr one_query_world \<and>
   trace (projr (QueryAnyWrap_Parse decoders_ptr_bad 0 [] one_query_world)) =
     [AresLibraryInit, AresInitOptions 0, AresSend 1, MakeCallback 0 [JsInt 0, JsArr []]]"
  using QueryAny_srv_and_ptr_failures [of 0 "[]" one_query_world]
  by (simp add: one_query_world_eq)

end
